theory Spec2Isabelle
  imports Main
begin

section \<open>The warm-session flight server (server.py)\<close>

text \<open>
  The server keeps one pre-warmed agent session in a module-level slot
  (\<^verbatim>\<open>_shared_session\<close>) guarded by an \<^verbatim>\<open>asyncio.Lock\<close>. A request takes the
  session (or creates one under the lock), runs the agent, answers, and a background
  task deletes the session and warms a new one.

  The session store and the agent runtime are external: each call to them is a point
  where the coroutine is suspended, and what they return is an input of the model.
\<close>

subsection \<open>Sessions, events, responses\<close>

text \<open>A session as the code reads it: \<^verbatim>\<open>session.user_id\<close> and \<^verbatim>\<open>session.id\<close>.\<close>

record session =
  user_id :: string
  sess_id :: nat

text \<open>
  What the handler reads of an event of \<^verbatim>\<open>runner.run_async\<close>: whether it has the method
  \<^verbatim>\<open>is_final_response\<close> and what that returns (\<open>None\<close>: no such attribute), its
  \<^verbatim>\<open>content\<close>, the content's \<^verbatim>\<open>parts\<close> and each part's \<^verbatim>\<open>text\<close>; \<open>None\<close> is
  Python's \<^verbatim>\<open>None\<close> or a missing attribute (\<^verbatim>\<open>getattr(x, name, None)\<close>).
\<close>

datatype adk_part = Part (part_text: "string option")

datatype adk_content = Content (parts: "adk_part list option")

datatype adk_event =
  Event (is_final_response: "bool option") (content: "adk_content option")

text \<open>
  The asynchronous generator yields events and may raise instead of yielding. \<open>Raise\<close>
  is an exception of class \<^verbatim>\<open>Exception\<close>, the kind \<^verbatim>\<open>except Exception\<close> catches; its
  message stands for it. (An exception outside that class is the action \<open>Throw\<close>
  below.)
\<close>

datatype stream_item = Yield adk_event | Raise string

text \<open>
  What a coroutine can end with instead of a result: the \<^verbatim>\<open>RuntimeError\<close> of line 82,
  an exception of the session store, an exception of the agent's stream, or an exception
  that is not of class \<^verbatim>\<open>Exception\<close> (a \<^verbatim>\<open>BaseException\<close> such as
  \<^verbatim>\<open>asyncio.CancelledError\<close> or \<^verbatim>\<open>KeyboardInterrupt\<close>), which no
  \<^verbatim>\<open>except Exception\<close> of the program catches.
\<close>

datatype error =
    ConfigError string
  | StoreError string
  | AgentError string
  | Interrupted string

text \<open>
  \<^verbatim>\<open>Response(status_code=204)\<close> and \<^verbatim>\<open>Response(content=final_text, media_type=...)\<close>:
  the status defaults to 200, a missing content is no body.
\<close>

record response =
  status_code :: nat
  body :: "string option"
  media_type :: "string option"

subsection \<open>Extracting the final text (lines 142 to 158)\<close>

text \<open>Python's truth value of an optional string: \<^verbatim>\<open>None\<close> and \<^verbatim>\<open>""\<close> are false.\<close>

fun truthy :: "string option \<Rightarrow> bool" where
  "truthy None = False"
| "truthy (Some t) = (t \<noteq> [])"

text \<open>
  \<^verbatim>\<open>for part in event.content.parts: if getattr(part, "text", None): final_text = part.text; break\<close>
\<close>

fun first_text :: "adk_part list \<Rightarrow> string option" where
  "first_text [] = None"
| "first_text (p # ps) =
     (if truthy (part_text p) then part_text p else first_text ps)"

text \<open>
  The body of the \<^verbatim>\<open>if\<close> of line 150: the guard of line 151 needs a content and a
  non-empty list of parts; \<open>final_text\<close> stays \<^verbatim>\<open>None\<close> otherwise.
\<close>

definition final_text_of :: "adk_event \<Rightarrow> string option" where
  "final_text_of e =
     (case content e of
        None \<Rightarrow> None
      | Some c \<Rightarrow>
          (case parts c of
             None \<Rightarrow> None
           | Some ps \<Rightarrow> first_text ps))"

text \<open>
  The \<^verbatim>\<open>async for\<close> loop: it stops at the first event whose \<^verbatim>\<open>is_final_response()\<close>
  is true (the \<^verbatim>\<open>break\<close> of line 156), ends with \<open>final_text = None\<close> when the stream
  is exhausted, and an exception of the generator leaves the loop at once (\<open>Inl\<close>,
  with the exception's message).
\<close>

fun run_agent :: "stream_item list \<Rightarrow> string + string option" where
  "run_agent [] = Inr None"
| "run_agent (Raise m # rest) = Inl m"
| "run_agent (Yield e # rest) =
     (if is_final_response e = Some True then Inr (final_text_of e)
      else run_agent rest)"

subsection \<open>Building the response (lines 172 to 187)\<close>

text \<open>
  \<^verbatim>\<open>json.loads\<close> belongs to Python's library: \<open>json_loads t\<close> says whether
  \<^verbatim>\<open>json.loads(t)\<close> returns rather than raises, and is a parameter here.
\<close>

definition detect_media_type :: "(string \<Rightarrow> bool) \<Rightarrow> string \<Rightarrow> string" where
  "detect_media_type json_loads t =
     (if json_loads t then ''application/json'' else ''text/plain'')"

definition no_content :: response where
  "no_content = \<lparr>status_code = 204, body = None, media_type = None\<rparr>"

definition ok_response :: "(string \<Rightarrow> bool) \<Rightarrow> string \<Rightarrow> response" where
  "ok_response json_loads t =
     \<lparr>status_code = 200, body = Some t,
      media_type = Some (detect_media_type json_loads t)\<rparr>"

subsection \<open>Shared state and coroutines\<close>

text \<open>
  The session store (\<^verbatim>\<open>runner.session_service\<close>) is external. A call either raises
  an exception of class \<^verbatim>\<open>Exception\<close> (\<open>Raised\<close>, with the exception's message) or
  returns; \<^verbatim>\<open>create_session\<close> returns a
  session of the user it was asked for, under an identity the store has not handed out
  before, which the counter \<open>store_next\<close> stands for.
\<close>

datatype store_reply = Returned | Raised string

text \<open>The \<^verbatim>\<open>logger.exception\<close> and \<^verbatim>\<open>logger.warning\<close> calls of the except branches.\<close>

datatype log_entry =
    Failed_to_create_warm_session string
  | Failed_to_delete_extra_session string
  | Error_while_running_agent string
  | Failed_to_delete_session_after_run_error string
  | Failed_to_delete_consumed_session string

text \<open>
  Where a coroutine is suspended. \<open>RQ\<close>: \<^verbatim>\<open>get_flight_info\<close>; \<open>CL\<close>: its inner
  \<^verbatim>\<open>cleanup_and_warm\<close>; \<open>RW\<close>: \<^verbatim>\<open>_create_and_set_session\<close>.
  \<^item> \<open>RQ_Acquire\<close>: at \<^verbatim>\<open>async with _session_lock\<close> (line 129), waiting for the lock;
  \<^item> \<open>RQ_Locked\<close>: holding the lock, before the test of line 130;
  \<^item> \<open>RQ_Creating\<close>: holding the lock, awaiting \<^verbatim>\<open>create_session\<close> (line 132);
  \<^item> \<open>RQ_Running\<close>: awaiting the event stream (line 144) with the acquired session;
  \<^item> \<open>RQ_ErrDeleting\<close>: in the except branch, awaiting \<^verbatim>\<open>delete_session\<close> (line 163),
    with the exception to re-raise;
  \<^item> \<open>RQ_Done\<close>: returned a response, or raised;
  \<^item> \<open>CL_Delete\<close>: awaiting \<^verbatim>\<open>delete_session\<close> (line 193);
  \<^item> \<open>RW_Create\<close>: awaiting \<^verbatim>\<open>create_session\<close> (line 98);
  \<^item> \<open>RW_Acquire\<close>: at \<^verbatim>\<open>async with _session_lock\<close> (line 102);
  \<^item> \<open>RW_Locked\<close>: holding the lock, before the test of line 103;
  \<^item> \<open>RW_Deleting\<close>: holding the lock, awaiting \<^verbatim>\<open>delete_session\<close> (line 109);
  \<^item> \<open>CL_Done\<close>, \<open>RW_Done\<close>: returned; \<open>CL_Raised\<close>, \<open>RW_Raised\<close>: ended by an exception
    that nothing in the coroutine caught.
  asyncio runs a coroutine from one suspension to the next without interruption. The
  model also lets others run between taking the lock and the first line under it
  (\<open>RQ_Locked\<close>, \<open>RW_Locked\<close>), and lets any waiting coroutine take a free lock where
  asyncio wakes the waiters in the order they came, so it has every interleaving of the
  program and more.
\<close>

datatype pc =
    RQ_Acquire
  | RQ_Locked
  | RQ_Creating
  | RQ_Running session
  | RQ_ErrDeleting session string
  | RQ_Done "error + response"
  | CL_Delete session
  | CL_Done
  | CL_Raised string
  | RW_Create
  | RW_Acquire session
  | RW_Locked session
  | RW_Deleting session
  | RW_Done
  | RW_Raised string

text \<open>
  The module's globals (\<^verbatim>\<open>_shared_session\<close>, \<^verbatim>\<open>_session_lock\<close>,
  \<^verbatim>\<open>_background_warm_task\<close>: a task is named by its index in \<open>tasks\<close>), the
  coroutines in flight, and what the outside has seen: the store's counter, the
  \<^verbatim>\<open>delete_session\<close> calls made, in order, and the log.
\<close>

record state =
  shared_session :: "session option"
  session_lock :: bool
  background_warm_task :: "nat option"
  tasks :: "pc list"
  store_next :: nat
  delete_calls :: "session list"
  log :: "log_entry list"

definition set_task :: "nat \<Rightarrow> pc \<Rightarrow> state \<Rightarrow> state" where
  "set_task i p s = s\<lparr>tasks := (tasks s)[i := p]\<rparr>"

text \<open>\<^verbatim>\<open>asyncio.create_task\<close>: the new task is the last of the list.\<close>

definition spawn :: "pc \<Rightarrow> state \<Rightarrow> state" where
  "spawn p s = s\<lparr>tasks := tasks s @ [p]\<rparr>"

definition new_session :: "state \<Rightarrow> session" where
  "new_session s = \<lparr>user_id = ''anonymous_user'', sess_id = store_next s\<rparr>"

definition created :: "state \<Rightarrow> state" where
  "created s = s\<lparr>store_next := Suc (store_next s)\<rparr>"

definition release :: "state \<Rightarrow> state" where
  "release s = s\<lparr>session_lock := False\<rparr>"

definition logged :: "log_entry \<Rightarrow> state \<Rightarrow> state" where
  "logged e s = s\<lparr>log := log s @ [e]\<rparr>"

text \<open>
  A \<^verbatim>\<open>delete_session\<close> call inside \<^verbatim>\<open>try ... except Exception\<close>: the call is made, and
  a failure is logged with the given line, never raised.
\<close>

definition try_delete ::
  "session \<Rightarrow> store_reply \<Rightarrow> (string \<Rightarrow> log_entry) \<Rightarrow> state \<Rightarrow> state" where
  "try_delete sess r line s =
     (let s' = s\<lparr>delete_calls := delete_calls s @ [sess]\<rparr>
      in case r of Returned \<Rightarrow> s' | Raised m \<Rightarrow> logged (line m) s')"

text \<open>
  \<^verbatim>\<open>_background_warm_task is None or _background_warm_task.done()\<close> (line 205); a task
  is done when its coroutine has returned or has ended by an exception.
\<close>

fun ended :: "pc \<Rightarrow> bool" where
  "ended RW_Done = True"
| "ended (RW_Raised m) = True"
| "ended p = False"

definition task_done :: "pc list \<Rightarrow> nat \<Rightarrow> bool" where
  "task_done ts t = (t < length ts \<and> ended (ts ! t))"

definition warm_idle :: "state \<Rightarrow> bool" where
  "warm_idle s =
     (case background_warm_task s of
        None \<Rightarrow> True
      | Some t \<Rightarrow> task_done (tasks s) t)"

text \<open>Lines 203 to 207: launch a rewarm task unless one is tracked and unfinished.\<close>

definition launch_warm :: "state \<Rightarrow> state" where
  "launch_warm s =
     (if warm_idle s
      then spawn RW_Create (s\<lparr>background_warm_task := Some (length (tasks s))\<rparr>)
      else s)"

text \<open>
  Lines 172 to 214, once the loop has ended with \<open>final_text\<close>:
  \<^verbatim>\<open>if not final_text: return Response(status_code=204)\<close>; otherwise the typed
  response is built, \<^verbatim>\<open>cleanup_and_warm\<close> is scheduled with the session, and the
  response is returned.
\<close>

definition finish ::
  "(string \<Rightarrow> bool) \<Rightarrow> nat \<Rightarrow> session \<Rightarrow> string option \<Rightarrow> state \<Rightarrow> state" where
  "finish jl i sess final_text s =
     (case final_text of
        None \<Rightarrow> set_task i (RQ_Done (Inr no_content)) s
      | Some t \<Rightarrow>
          if t = [] then set_task i (RQ_Done (Inr no_content)) s
          else spawn (CL_Delete sess) (set_task i (RQ_Done (Inr (ok_response jl t))) s))"

text \<open>
  One coroutine \<open>i\<close>, suspended at \<open>p\<close>, runs to its next suspension. \<open>r\<close> is what the
  store call it awaited returned, \<open>ev\<close> the event stream it awaited; a coroutine waiting
  for a held lock, or a finished one, does not move.
\<close>

fun resume ::
  "(string \<Rightarrow> bool) \<Rightarrow> state \<Rightarrow> nat \<Rightarrow> store_reply \<Rightarrow> stream_item list \<Rightarrow> pc \<Rightarrow> state"
where
  "resume jl s i r ev RQ_Acquire =
     (if session_lock s then s
      else set_task i RQ_Locked (s\<lparr>session_lock := True\<rparr>))"
| "resume jl s i r ev RQ_Locked =
     (case shared_session s of
        None \<Rightarrow> set_task i RQ_Creating s
      | Some sess \<Rightarrow>
          set_task i (RQ_Running sess) (release (s\<lparr>shared_session := None\<rparr>)))"
| "resume jl s i r ev RQ_Creating =
     (case r of
        Raised m \<Rightarrow> set_task i (RQ_Done (Inl (StoreError m))) (release s)
      | Returned \<Rightarrow> set_task i (RQ_Running (new_session s)) (release (created s)))"
| "resume jl s i r ev (RQ_Running sess) =
     (case run_agent ev of
        Inl m \<Rightarrow> set_task i (RQ_ErrDeleting sess m) (logged (Error_while_running_agent m) s)
      | Inr final_text \<Rightarrow> finish jl i sess final_text s)"
| "resume jl s i r ev (RQ_ErrDeleting sess m) =
     set_task i (RQ_Done (Inl (AgentError m)))
       (try_delete sess r Failed_to_delete_session_after_run_error s)"
| "resume jl s i r ev (RQ_Done res) = s"
| "resume jl s i r ev (CL_Delete sess) =
     set_task i CL_Done
       (launch_warm (try_delete sess r Failed_to_delete_consumed_session s))"
| "resume jl s i r ev CL_Done = s"
| "resume jl s i r ev RW_Create =
     (case r of
        Raised m \<Rightarrow> set_task i RW_Done (logged (Failed_to_create_warm_session m) s)
      | Returned \<Rightarrow> set_task i (RW_Acquire (new_session s)) (created s))"
| "resume jl s i r ev (RW_Acquire sess) =
     (if session_lock s then s
      else set_task i (RW_Locked sess) (s\<lparr>session_lock := True\<rparr>))"
| "resume jl s i r ev (RW_Locked sess) =
     (case shared_session s of
        None \<Rightarrow> set_task i RW_Done (release (s\<lparr>shared_session := Some sess\<rparr>))
      | Some other \<Rightarrow> set_task i (RW_Deleting sess) s)"
| "resume jl s i r ev (RW_Deleting sess) =
     set_task i RW_Done
       (release (try_delete sess r Failed_to_delete_extra_session s))"
| "resume jl s i r ev RW_Done = s"
| "resume jl s i r ev (CL_Raised m) = s"
| "resume jl s i r ev (RW_Raised m) = s"

text \<open>
  An exception \<open>m\<close> that is not of class \<^verbatim>\<open>Exception\<close> is raised at the await where
  coroutine \<open>i\<close> is suspended at \<open>p\<close> (the task is cancelled while it waits, the process
  is interrupted). No \<^verbatim>\<open>except Exception\<close> catches it, so it ends the coroutine;
  \<^verbatim>\<open>async with\<close> releases the lock on the way out. Where the coroutine awaits a
  \<^verbatim>\<open>delete_session\<close>, the call has been made. \<open>RQ_Locked\<close> and \<open>RW_Locked\<close> are not
  awaits of the program, so nothing can be raised there.
\<close>

fun interrupt :: "state \<Rightarrow> nat \<Rightarrow> string \<Rightarrow> pc \<Rightarrow> state" where
  "interrupt s i m RQ_Acquire = set_task i (RQ_Done (Inl (Interrupted m))) s"
| "interrupt s i m RQ_Locked = s"
| "interrupt s i m RQ_Creating = set_task i (RQ_Done (Inl (Interrupted m))) (release s)"
| "interrupt s i m (RQ_Running sess) = set_task i (RQ_Done (Inl (Interrupted m))) s"
| "interrupt s i m (RQ_ErrDeleting sess e) =
     set_task i (RQ_Done (Inl (Interrupted m)))
       (s\<lparr>delete_calls := delete_calls s @ [sess]\<rparr>)"
| "interrupt s i m (RQ_Done res) = s"
| "interrupt s i m (CL_Delete sess) =
     set_task i (CL_Raised m) (s\<lparr>delete_calls := delete_calls s @ [sess]\<rparr>)"
| "interrupt s i m CL_Done = s"
| "interrupt s i m (CL_Raised x) = s"
| "interrupt s i m RW_Create = set_task i (RW_Raised m) s"
| "interrupt s i m (RW_Acquire sess) = set_task i (RW_Raised m) s"
| "interrupt s i m (RW_Locked sess) = s"
| "interrupt s i m (RW_Deleting sess) =
     set_task i (RW_Raised m)
       (release (s\<lparr>delete_calls := delete_calls s @ [sess]\<rparr>))"
| "interrupt s i m RW_Done = s"
| "interrupt s i m (RW_Raised x) = s"

text \<open>
  What the event loop does next: a new \<^verbatim>\<open>POST /flight\<close> arrives, coroutine \<open>i\<close> is
  resumed with what it awaited, or coroutine \<open>i\<close> is resumed with an exception that is
  not of class \<^verbatim>\<open>Exception\<close>.
\<close>

datatype action = Arrive | Advance nat store_reply "stream_item list" | Throw nat string

fun step :: "(string \<Rightarrow> bool) \<Rightarrow> state \<Rightarrow> action \<Rightarrow> state" where
  "step jl s Arrive = spawn RQ_Acquire s"
| "step jl s (Advance i r ev) =
     (if i < length (tasks s) then resume jl s i r ev (tasks s ! i) else s)"
| "step jl s (Throw i m) =
     (if i < length (tasks s) then interrupt s i m (tasks s ! i) else s)"

fun run :: "(string \<Rightarrow> bool) \<Rightarrow> state \<Rightarrow> action list \<Rightarrow> state" where
  "run jl s [] = s"
| "run jl s (a # as) = run jl (step jl s a) as"

subsection \<open>Startup (lines 78 to 86)\<close>

text \<open>The module's globals as lines 74 to 76 set them, with an untouched store.\<close>

definition initial :: state where
  "initial =
     \<lparr>shared_session = None, session_lock = False, background_warm_task = None,
      tasks = [], store_next = 0, delete_calls = [], log = []\<rparr>"

text \<open>
  \<^verbatim>\<open>await _create_and_set_session()\<close> with nothing else running: the coroutine is
  resumed until it has finished (at most four times). \<open>c\<close> is the reply of its
  \<^verbatim>\<open>create_session\<close>, \<open>d\<close> of its \<^verbatim>\<open>delete_session\<close>.
\<close>

definition await_create_and_set_session ::
  "(string \<Rightarrow> bool) \<Rightarrow> store_reply \<Rightarrow> store_reply \<Rightarrow> state \<Rightarrow> state" where
  "await_create_and_set_session jl c d s =
     (let i = length (tasks s)
      in run jl (spawn RW_Create s)
           [Advance i c [], Advance i c [], Advance i d [], Advance i d []])"

text \<open>
  \<^verbatim>\<open>lifespan\<close> up to its \<^verbatim>\<open>yield\<close>, from the module's initial state; \<open>key\<close> is
  \<^verbatim>\<open>os.getenv("GOOGLE_API_KEY")\<close>, and the store replies \<open>c\<close> and \<open>d\<close> (it returns, or
  raises an exception of class \<^verbatim>\<open>Exception\<close>). Requests are served from the state it
  returns.
\<close>

definition lifespan ::
  "(string \<Rightarrow> bool) \<Rightarrow> string option \<Rightarrow> store_reply \<Rightarrow> store_reply \<Rightarrow> error + state"
where
  "lifespan jl key c d =
     (if \<not> truthy key
      then Inl (ConfigError ''GOOGLE_API_KEY not set. Put it in .env or export it.'')
      else Inr (await_create_and_set_session jl c d initial))"

text \<open>
  \<^verbatim>\<open>lifespan\<close> up to its \<^verbatim>\<open>yield\<close> with the awaited routine driven by any actions
  (they are to run it to its end): what the routine raises, \<^verbatim>\<open>lifespan\<close> raises. The
  routine is the first coroutine.
\<close>

definition lifespan_with ::
  "(string \<Rightarrow> bool) \<Rightarrow> string option \<Rightarrow> action list \<Rightarrow> error + state"
where
  "lifespan_with jl key acts =
     (if \<not> truthy key
      then Inl (ConfigError ''GOOGLE_API_KEY not set. Put it in .env or export it.'')
      else (let s = run jl (spawn RW_Create initial) acts
            in case tasks s of
                 RW_Raised m # rest \<Rightarrow> Inl (Interrupted m)
               | other \<Rightarrow> Inr s))"

subsection \<open>One request with nothing else running\<close>

text \<open>
  A request arrives and its coroutine is resumed until it has finished (at most five
  times), with nothing else in between. \<open>c\<close> is the reply of \<^verbatim>\<open>create_session\<close> should
  the request call it, \<open>ev\<close> the event stream of the agent, \<open>d\<close> the reply of
  \<^verbatim>\<open>delete_session\<close> should the request call it in its except branch.
\<close>

definition request_alone ::
  "(string \<Rightarrow> bool) \<Rightarrow> store_reply \<Rightarrow> stream_item list \<Rightarrow> store_reply \<Rightarrow> state \<Rightarrow> state"
where
  "request_alone jl c ev d s =
     (let i = length (tasks s)
      in run jl s
           [Arrive, Advance i c ev, Advance i c ev, Advance i c ev, Advance i d ev,
            Advance i d ev])"

subsection \<open>The specification's reading of the result payload\<close>

text \<open>
  The specification's words, not the code's loop: the first text-bearing content part of
  the first event that reports itself as the final response; nothing when there is no
  such event or no such part. A part bears text when its text is a non-empty string.
\<close>

definition spec_result_payload :: "adk_event list \<Rightarrow> string option" where
  "spec_result_payload es =
     (case find (\<lambda>e. is_final_response e = Some True) es of
        None \<Rightarrow> None
      | Some e \<Rightarrow>
          (case content e of
             None \<Rightarrow> None
           | Some c \<Rightarrow>
               (case parts c of
                  None \<Rightarrow> None
                | Some ps \<Rightarrow>
                    (case find (\<lambda>p. truthy (part_text p)) ps of
                       None \<Rightarrow> None
                     | Some p \<Rightarrow> part_text p))))"

subsection \<open>Ownership of sessions and of the lock\<close>

text \<open>
  The session a suspended coroutine owns: the one it acquired or created and has not yet
  put into the slot, handed to its cleanup task, or seen deleted.
\<close>

fun held :: "pc \<Rightarrow> session option" where
  "held (RQ_Running x) = Some x"
| "held (RQ_ErrDeleting x m) = Some x"
| "held (CL_Delete x) = Some x"
| "held (RW_Acquire x) = Some x"
| "held (RW_Locked x) = Some x"
| "held (RW_Deleting x) = Some x"
| "held p = None"

text \<open>Whether a coroutine is suspended inside \<^verbatim>\<open>async with _session_lock\<close>.\<close>

fun holds_lock :: "pc \<Rightarrow> bool" where
  "holds_lock RQ_Locked = True"
| "holds_lock RQ_Creating = True"
| "holds_lock (RW_Locked x) = True"
| "holds_lock (RW_Deleting x) = True"
| "holds_lock p = False"

text \<open>A session is identified by its \<^verbatim>\<open>id\<close>.\<close>

definition has_id :: "nat \<Rightarrow> session option \<Rightarrow> bool" where
  "has_id n v = (case v of None \<Rightarrow> False | Some x \<Rightarrow> sess_id x = n)"

text \<open>How many places hold the session with identity \<open>n\<close>: the slot and the coroutines.\<close>

definition holders :: "nat \<Rightarrow> state \<Rightarrow> nat" where
  "holders n s =
     (if has_id n (shared_session s) then 1 else 0) +
     length (filter (\<lambda>p. has_id n (held p)) (tasks s))"

text \<open>How many coroutines are inside the lock.\<close>

definition lockers :: "state \<Rightarrow> nat" where
  "lockers s = length (filter holds_lock (tasks s))"

text \<open>
  The invariant of the slot discipline: every session identity is held in at most one
  place, and only identities the store has handed out; the lock is held exactly when one
  coroutine is inside it.
\<close>

definition coherent :: "state \<Rightarrow> bool" where
  "coherent s \<longleftrightarrow>
     (\<forall>n. holders n s \<le> (if n < store_next s then 1 else 0)) \<and>
     lockers s = (if session_lock s then 1 else 0)"

text \<open>
  A state to start from: the lock is free, no coroutine is past its first line (each is
  about to start, or has finished), and the session in the slot, if any, came from the
  store.
\<close>

definition quiescent :: "state \<Rightarrow> bool" where
  "quiescent s \<longleftrightarrow>
     \<not> session_lock s \<and>
     list_all (\<lambda>p. held p = None \<and> \<not> holds_lock p) (tasks s) \<and>
     (case shared_session s of None \<Rightarrow> True | Some x \<Rightarrow> sess_id x < store_next s)"

subsection \<open>Racing rewarm invocations\<close>

text \<open>
  \<open>N\<close> invocations of the rewarm routine started together, each awaiting its
  \<^verbatim>\<open>create_session\<close>, with the slot empty, the lock free and a store that has handed out
  the identities below \<open>n0\<close>.
\<close>

definition rewarms :: "nat \<Rightarrow> nat \<Rightarrow> state" where
  "rewarms N n0 =
     \<lparr>shared_session = None, session_lock = False, background_warm_task = None,
      tasks = replicate N RW_Create, store_next = n0, delete_calls = [], log = []\<rparr>"

text \<open>
  A schedule of resumptions only (no request arrives): which coroutine is resumed next,
  and what the store call it awaited replied.
\<close>

definition resumes :: "(nat \<times> store_reply) list \<Rightarrow> action list" where
  "resumes sched = map (\<lambda>(i, r). Advance i r []) sched"

text \<open>The suspension points of \<^verbatim>\<open>_create_and_set_session\<close>.\<close>

fun is_rewarm :: "pc \<Rightarrow> bool" where
  "is_rewarm RW_Create = True"
| "is_rewarm (RW_Acquire x) = True"
| "is_rewarm (RW_Locked x) = True"
| "is_rewarm (RW_Deleting x) = True"
| "is_rewarm RW_Done = True"
| "is_rewarm p = False"

text \<open>Awaiting the \<^verbatim>\<open>delete_session\<close> of a surplus session.\<close>

fun is_deleting :: "pc \<Rightarrow> bool" where
  "is_deleting (RW_Deleting x) = True"
| "is_deleting p = False"

text \<open>How many \<^verbatim>\<open>delete_session\<close> calls were made for the identity \<open>n\<close>.\<close>

definition deleted :: "nat \<Rightarrow> state \<Rightarrow> nat" where
  "deleted n s = length (filter (\<lambda>x. sess_id x = n) (delete_calls s))"

text \<open>How many sessions are held: by the slot and by the coroutines.\<close>

definition holding :: "state \<Rightarrow> nat" where
  "holding s =
     (if shared_session s = None then 0 else 1) +
     length (filter (\<lambda>p. held p \<noteq> None) (tasks s))"

text \<open>
  The invariant of \<open>N\<close> racing rewarm invocations: only rewarm coroutines run; the lock
  is held exactly when one is inside it; every identity the store has handed out since
  \<open>n0\<close> is in exactly one place (the slot, a coroutine, or the list of delete calls);
  a delete call is made or awaited only when the slot is occupied; and the store has
  handed out no more sessions than invocations have passed their create call.
\<close>

definition warming :: "nat \<Rightarrow> nat \<Rightarrow> state \<Rightarrow> bool" where
  "warming N n0 s \<longleftrightarrow>
     list_all is_rewarm (tasks s) \<and> length (tasks s) = N \<and>
     lockers s = (if session_lock s then 1 else 0) \<and>
     (\<forall>n. holders n s + deleted n s = (if n0 \<le> n \<and> n < store_next s then 1 else 0)) \<and>
     (delete_calls s \<noteq> [] \<or> list_ex is_deleting (tasks s) \<longrightarrow> shared_session s \<noteq> None) \<and>
     n0 \<le> store_next s \<and>
     store_next s + length (filter (\<lambda>p. p = RW_Create) (tasks s)) \<le> N + n0 \<and>
     holding s + length (delete_calls s) + n0 = store_next s"

text \<open>How many more times a rewarm coroutine can be resumed at most before it has finished.\<close>

fun steps_left :: "pc \<Rightarrow> nat" where
  "steps_left RW_Create = 4"
| "steps_left (RW_Acquire x) = 3"
| "steps_left (RW_Locked x) = 2"
| "steps_left (RW_Deleting x) = 1"
| "steps_left p = 0"

definition remaining :: "state \<Rightarrow> nat" where
  "remaining s = sum_list (map steps_left (tasks s))"

section \<open>Properties\<close>

subsection \<open>The event loop of a request\<close>

lemma first_text_find:
  "first_text ps =
     (case find (\<lambda>p. truthy (part_text p)) ps of
        None \<Rightarrow> None
      | Some p \<Rightarrow> part_text p)"
  by (induction ps) auto

lemma run_agent_yields: "run_agent (map Yield es) = Inr (spec_result_payload es)"
  by (induction es)
     (auto simp: spec_result_payload_def final_text_of_def first_text_find
           split: option.splits)

lemma run_agent_skips:
  "run_agent (map Yield (filter (\<lambda>e. is_final_response e \<noteq> Some True) pre) @ rest) =
   run_agent rest"
  by (induction pre) auto

lemma run_agent_no_final:
  "run_agent (map Yield (filter (\<lambda>e. is_final_response e \<noteq> Some True) es)) = Inr None"
  using run_agent_skips [of es "[]"] by simp

text \<open>
  Claim C5. For every sequence of events the runtime yields, the loop's result is the
  specification's payload: the first text-bearing part of the first event that reports
  itself final. Events that do not report themselves final, placed before the rest of a
  stream, do not change the result; a stream of such events alone gives no payload; at
  an event that reports itself final the loop stops, whatever follows it. The handler
  goes on from the loop with exactly this payload.
\<close>

theorem result_payload_is_first_text_of_first_final:
  "run_agent (map Yield es) = Inr (spec_result_payload es) \<and>
   run_agent (map Yield (filter (\<lambda>e. is_final_response e \<noteq> Some True) pre) @ rest) =
     run_agent rest \<and>
   run_agent (map Yield (filter (\<lambda>e. is_final_response e \<noteq> Some True) es)) = Inr None \<and>
   run_agent (Yield (Event (Some True) c) # rest) = Inr (final_text_of (Event (Some True) c)) \<and>
   (i < length (tasks s) \<and> tasks s ! i = RQ_Running sess \<longrightarrow>
      step jl s (Advance i r (map Yield es)) = finish jl i sess (spec_result_payload es) s)"
  using run_agent_yields run_agent_skips run_agent_no_final by simp

theorem result_payload_is_first_text_of_first_final_witness:
  "run_agent (map Yield
     [Event (Some False) (Some (Content (Some [Part (Some ''thinking'')]))),
      Event None None,
      Event (Some True)
        (Some (Content (Some [Part None, Part (Some []), Part (Some ''AI201''), Part (Some ''x'')]))),
      Event (Some True) (Some (Content (Some [Part (Some ''late'')])))]) = Inr (Some ''AI201'') \<and>
   0 < length (tasks (initial\<lparr>tasks := [RQ_Running \<lparr>user_id = ''anonymous_user'', sess_id = 0\<rparr>]\<rparr>)) \<and>
   step ((=) ''[]'') (initial\<lparr>tasks := [RQ_Running \<lparr>user_id = ''anonymous_user'', sess_id = 0\<rparr>]\<rparr>)
     (Advance 0 Returned (map Yield
        [Event (Some False) (Some (Content (Some [Part (Some ''thinking'')]))),
         Event None None,
         Event (Some True)
           (Some (Content (Some [Part None, Part (Some []), Part (Some ''AI201''), Part (Some ''x'')]))),
         Event (Some True) (Some (Content (Some [Part (Some ''late'')])))])) =
   finish ((=) ''[]'') 0 \<lparr>user_id = ''anonymous_user'', sess_id = 0\<rparr> (Some ''AI201'')
     (initial\<lparr>tasks := [RQ_Running \<lparr>user_id = ''anonymous_user'', sess_id = 0\<rparr>]\<rparr>)"
  using result_payload_is_first_text_of_first_final
    [of "[Event (Some False) (Some (Content (Some [Part (Some ''thinking'')]))),
      Event None None,
      Event (Some True)
        (Some (Content (Some [Part None, Part (Some []), Part (Some ''AI201''), Part (Some ''x'')]))),
      Event (Some True) (Some (Content (Some [Part (Some ''late'')])))]"
     "[]" "[]" None 0
     "initial\<lparr>tasks := [RQ_Running \<lparr>user_id = ''anonymous_user'', sess_id = 0\<rparr>]\<rparr>"
     "\<lparr>user_id = ''anonymous_user'', sess_id = 0\<rparr>" "(=) ''[]''" Returned]
  by (simp add: spec_result_payload_def final_text_of_def)

subsection \<open>The response of a request\<close>

lemma finish_result:
  "i < length (tasks s) \<Longrightarrow>
   tasks (finish jl i sess ft s) ! i =
     RQ_Done (Inr (if \<not> truthy ft then no_content else ok_response jl (the ft)))"
  by (cases ft) (auto simp: finish_def set_task_def spawn_def nth_append)

text \<open>
  Claim C4. A request whose agent run completes (the loop ends with \<open>final_text\<close>, no
  exception) returns: 204 with no body when there is no final text; 200 with the text
  as body and \<open>application/json\<close> when \<^verbatim>\<open>json.loads\<close> accepts the text; 200 with the
  text as body and \<open>text/plain\<close> otherwise.
\<close>

theorem response_typing:
  assumes "i < length (tasks s)" and "tasks s ! i = RQ_Running sess"
    and "run_agent ev = Inr final_text"
  shows "tasks (step jl s (Advance i r ev)) ! i =
     RQ_Done (Inr
       (if \<not> truthy final_text
        then \<lparr>status_code = 204, body = None, media_type = None\<rparr>
        else if jl (the final_text)
        then \<lparr>status_code = 200, body = final_text, media_type = Some ''application/json''\<rparr>
        else \<lparr>status_code = 200, body = final_text, media_type = Some ''text/plain''\<rparr>))"
  using assms
  by (cases final_text)
     (auto simp: finish_result no_content_def ok_response_def detect_media_type_def)

theorem response_typing_witness:
  "tasks (step ((=) ''[]'') (initial\<lparr>tasks := [RQ_Running \<lparr>user_id = ''anonymous_user'', sess_id = 0\<rparr>]\<rparr>)
     (Advance 0 Returned [Yield (Event (Some True) (Some (Content (Some [Part (Some ''[]'')]))))])) ! 0 =
     RQ_Done (Inr \<lparr>status_code = 200, body = Some ''[]'', media_type = Some ''application/json''\<rparr>) \<and>
   tasks (step ((=) ''[]'') (initial\<lparr>tasks := [RQ_Running \<lparr>user_id = ''anonymous_user'', sess_id = 0\<rparr>]\<rparr>)
     (Advance 0 Returned [Yield (Event (Some True) (Some (Content (Some [Part (Some ''no flight found'')]))))])) ! 0 =
     RQ_Done (Inr \<lparr>status_code = 200, body = Some ''no flight found'', media_type = Some ''text/plain''\<rparr>) \<and>
   tasks (step ((=) ''[]'') (initial\<lparr>tasks := [RQ_Running \<lparr>user_id = ''anonymous_user'', sess_id = 0\<rparr>]\<rparr>)
     (Advance 0 Returned [])) ! 0 =
     RQ_Done (Inr \<lparr>status_code = 204, body = None, media_type = None\<rparr>)"
  using
    response_typing [of 0 "initial\<lparr>tasks := [RQ_Running \<lparr>user_id = ''anonymous_user'', sess_id = 0\<rparr>]\<rparr>"
      "\<lparr>user_id = ''anonymous_user'', sess_id = 0\<rparr>"
      "[Yield (Event (Some True) (Some (Content (Some [Part (Some ''[]'')]))))]" "Some ''[]''"
      "(=) ''[]''" Returned]
    response_typing [of 0 "initial\<lparr>tasks := [RQ_Running \<lparr>user_id = ''anonymous_user'', sess_id = 0\<rparr>]\<rparr>"
      "\<lparr>user_id = ''anonymous_user'', sess_id = 0\<rparr>"
      "[Yield (Event (Some True) (Some (Content (Some [Part (Some ''no flight found'')]))))]"
      "Some ''no flight found''" "(=) ''[]''" Returned]
    response_typing [of 0 "initial\<lparr>tasks := [RQ_Running \<lparr>user_id = ''anonymous_user'', sess_id = 0\<rparr>]\<rparr>"
      "\<lparr>user_id = ''anonymous_user'', sess_id = 0\<rparr>" "[]" None "(=) ''[]''" Returned]
  by (simp add: initial_def final_text_of_def)

lemma first_text_empty:
  "\<forall>p \<in> set ps. \<not> truthy (part_text p) \<Longrightarrow> first_text ps = None"
  by (induction ps) auto

text \<open>
  Claim C10. A final-response event whose parts all carry the empty string as text is
  handled as one with no text at all: no part is taken, the request moves exactly as it
  does for a final event with no parts, and it answers 204 with no body. A final text
  that is the empty string would be answered the same way as none.
\<close>

theorem empty_text_is_no_text:
  assumes "\<forall>p \<in> set ps. part_text p = Some []"
    and "i < length (tasks s)" and "tasks s ! i = RQ_Running sess"
  shows "first_text ps = None \<and>
    step jl s (Advance i r (Yield (Event (Some True) (Some (Content (Some ps)))) # rest)) =
    step jl s (Advance i r (Yield (Event (Some True) (Some (Content (Some [])))) # rest)) \<and>
    tasks (step jl s (Advance i r (Yield (Event (Some True) (Some (Content (Some ps)))) # rest))) ! i =
      RQ_Done (Inr \<lparr>status_code = 204, body = None, media_type = None\<rparr>) \<and>
    finish jl i sess (Some []) s = finish jl i sess None s"
proof -
  have "first_text ps = None"
    using assms(1) by (intro first_text_empty) simp
  then show ?thesis
    using assms(2,3)
    by (simp add: final_text_of_def finish_def set_task_def no_content_def)
qed

theorem empty_text_is_no_text_witness:
  "first_text [Part (Some []), Part (Some [])] = None \<and>
   tasks (step ((=) ''[]'') (initial\<lparr>tasks := [RQ_Running \<lparr>user_id = ''anonymous_user'', sess_id = 0\<rparr>]\<rparr>)
     (Advance 0 Returned
        [Yield (Event (Some True) (Some (Content (Some [Part (Some []), Part (Some [])]))))])) ! 0 =
     RQ_Done (Inr \<lparr>status_code = 204, body = None, media_type = None\<rparr>)"
proof -
  let ?s = "initial\<lparr>tasks := [RQ_Running \<lparr>user_id = ''anonymous_user'', sess_id = 0\<rparr>]\<rparr>"
  have parts: "\<forall>p \<in> set [Part (Some []), Part (Some [])]. part_text p = Some []"
    by simp
  have len: "0 < length (tasks ?s)"
    by simp
  have at: "tasks ?s ! 0 = RQ_Running \<lparr>user_id = ''anonymous_user'', sess_id = 0\<rparr>"
    by simp
  from empty_text_is_no_text [OF parts len at, of "(=) ''[]''" Returned "[]"]
  show ?thesis by blast
qed

subsection \<open>What each operation leaves alone\<close>

lemma try_delete_simps:
  "shared_session (try_delete x r l s) = shared_session s"
  "session_lock (try_delete x r l s) = session_lock s"
  "background_warm_task (try_delete x r l s) = background_warm_task s"
  "tasks (try_delete x r l s) = tasks s"
  "store_next (try_delete x r l s) = store_next s"
  "delete_calls (try_delete x r l s) = delete_calls s @ [x]"
  by (cases r; simp add: try_delete_def logged_def)+

lemma launch_warm_simps:
  "shared_session (launch_warm s) = shared_session s"
  "session_lock (launch_warm s) = session_lock s"
  "store_next (launch_warm s) = store_next s"
  "delete_calls (launch_warm s) = delete_calls s"
  "log (launch_warm s) = log s"
  "tasks (launch_warm s) = (if warm_idle s then tasks s @ [RW_Create] else tasks s)"
  by (simp_all add: launch_warm_def spawn_def)

lemma finish_simps:
  "shared_session (finish jl i x ft s) = shared_session s"
  "session_lock (finish jl i x ft s) = session_lock s"
  "store_next (finish jl i x ft s) = store_next s"
  "delete_calls (finish jl i x ft s) = delete_calls s"
  "background_warm_task (finish jl i x ft s) = background_warm_task s"
  "log (finish jl i x ft s) = log s"
  by (cases ft; simp add: finish_def set_task_def spawn_def)+

lemmas ops = set_task_def spawn_def created_def release_def logged_def try_delete_def
  new_session_def launch_warm_def warm_idle_def task_done_def finish_def

subsection \<open>Startup and the rewarm routine on its own\<close>

lemma await_rewarm_raised:
  "await_create_and_set_session jl (Raised m) d s =
     s\<lparr>tasks := tasks s @ [RW_Done], log := log s @ [Failed_to_create_warm_session m]\<rparr>"
  by (simp add: await_create_and_set_session_def Let_def ops nth_append)

lemma await_rewarm_installs:
  "\<not> session_lock s \<Longrightarrow> shared_session s = None \<Longrightarrow>
   await_create_and_set_session jl Returned d s =
     s\<lparr>shared_session := Some (new_session s), tasks := tasks s @ [RW_Done],
       store_next := Suc (store_next s)\<rparr>"
  by (simp add: await_create_and_set_session_def Let_def ops nth_append)

lemma await_rewarm_extra:
  "\<not> session_lock s \<Longrightarrow> shared_session s = Some x \<Longrightarrow>
   await_create_and_set_session jl Returned d s =
     try_delete (new_session s) d Failed_to_delete_extra_session
       (s\<lparr>tasks := tasks s @ [RW_Done], store_next := Suc (store_next s)\<rparr>)"
  by (cases d) (simp_all add: await_create_and_set_session_def Let_def ops nth_append)

lemma await_rewarm_finishes:
  assumes "\<not> session_lock s"
  shows "tasks (await_create_and_set_session jl c d s) = tasks s @ [RW_Done]"
proof (cases c)
  case Returned
  with assms show ?thesis
    by (cases "shared_session s"; cases d)
       (simp_all add: await_rewarm_installs await_rewarm_extra ops)
next
  case (Raised x)
  then show ?thesis by (simp add: await_rewarm_raised)
qed

text \<open>
  Claim C8, as stated, fails where the store's \<^verbatim>\<open>create_session\<close> raises at startup:
  the credential is present, startup completes, and the slot is empty.
\<close>

theorem startup_without_warm_session:
  "lifespan ((=) ''[]'') (Some ''key'') (Raised ''store down'') Returned =
     Inr \<lparr>shared_session = None, session_lock = False, background_warm_task = None,
          tasks = [RW_Done], store_next = 0, delete_calls = [],
          log = [Failed_to_create_warm_session ''store down'']\<rparr>"
  by (simp add: lifespan_def await_rewarm_raised initial_def)

text \<open>
  Claim C8, amended. On process start, if \<^verbatim>\<open>GOOGLE_API_KEY\<close> is absent or empty the
  process raises a configuration error and does not start. Otherwise the rewarm routine
  is run once, synchronously: when the store's \<^verbatim>\<open>create_session\<close> returns, the new
  session is in the slot before any request is accepted; when it raises, startup
  completes all the same, with the failure logged and the slot empty.
\<close>

theorem startup_contract:
  "(\<not> truthy key \<longrightarrow>
      lifespan jl key c d =
        Inl (ConfigError ''GOOGLE_API_KEY not set. Put it in .env or export it.'')) \<and>
   (truthy key \<longrightarrow>
      lifespan jl key Returned d =
        Inr \<lparr>shared_session = Some \<lparr>user_id = ''anonymous_user'', sess_id = 0\<rparr>,
             session_lock = False, background_warm_task = None, tasks = [RW_Done],
             store_next = 1, delete_calls = [], log = []\<rparr>) \<and>
   (truthy key \<longrightarrow>
      lifespan jl key (Raised m) d =
        Inr \<lparr>shared_session = None, session_lock = False, background_warm_task = None,
             tasks = [RW_Done], store_next = 0, delete_calls = [],
             log = [Failed_to_create_warm_session m]\<rparr>)"
  by (simp add: lifespan_def await_rewarm_raised await_rewarm_installs initial_def
      new_session_def)

theorem startup_contract_witness:
  "lifespan ((=) ''[]'') None Returned Returned =
     Inl (ConfigError ''GOOGLE_API_KEY not set. Put it in .env or export it.'') \<and>
   lifespan ((=) ''[]'') (Some []) Returned Returned =
     Inl (ConfigError ''GOOGLE_API_KEY not set. Put it in .env or export it.'') \<and>
   lifespan ((=) ''[]'') (Some ''key'') Returned Returned =
     Inr \<lparr>shared_session = Some \<lparr>user_id = ''anonymous_user'', sess_id = 0\<rparr>,
          session_lock = False, background_warm_task = None, tasks = [RW_Done],
          store_next = 1, delete_calls = [], log = []\<rparr> \<and>
   lifespan ((=) ''[]'') (Some ''key'') (Raised ''no store'') Returned =
     Inr \<lparr>shared_session = None, session_lock = False, background_warm_task = None,
          tasks = [RW_Done], store_next = 0, delete_calls = [],
          log = [Failed_to_create_warm_session ''no store'']\<rparr>"
  using
    startup_contract [of None "(=) ''[]''" Returned Returned "''no store''"]
    startup_contract [of "Some []" "(=) ''[]''" Returned Returned "''no store''"]
    startup_contract [of "Some ''key''" "(=) ''[]''" Returned Returned "''no store''"]
  by simp

subsection \<open>A request whose agent run raises\<close>

lemma step_running_raise:
  assumes "i < length (tasks s)" "tasks s ! i = RQ_Running sess" "run_agent ev = Inl m"
  shows "step jl s (Advance i r ev) =
     s\<lparr>tasks := (tasks s)[i := RQ_ErrDeleting sess m],
       log := log s @ [Error_while_running_agent m]\<rparr>"
  using assms by (simp add: ops)

lemma step_err_deleting:
  assumes "i < length (tasks s)" "tasks s ! i = RQ_ErrDeleting sess m"
  shows "step jl s (Advance i d ev) =
     s\<lparr>tasks := (tasks s)[i := RQ_Done (Inl (AgentError m))],
       delete_calls := delete_calls s @ [sess],
       log := log s @
         (case d of
            Returned \<Rightarrow> []
          | Raised x \<Rightarrow> [Failed_to_delete_session_after_run_error x])\<rparr>"
  using assms by (cases d) (simp_all add: ops)

lemma request_alone_warm_raise:
  assumes "\<not> session_lock s" "shared_session s = Some sess" "run_agent ev = Inl m"
  shows "request_alone jl c ev d s =
     s\<lparr>shared_session := None,
       tasks := tasks s @ [RQ_Done (Inl (AgentError m))],
       delete_calls := delete_calls s @ [sess],
       log := log s @ Error_while_running_agent m #
         (case d of
            Returned \<Rightarrow> []
          | Raised x \<Rightarrow> [Failed_to_delete_session_after_run_error x])\<rparr>"
  using assms by (cases d) (simp_all add: request_alone_def Let_def ops nth_append)

lemma request_alone_fallback_raise:
  assumes "\<not> session_lock s" "shared_session s = None" "run_agent ev = Inl m"
  shows "request_alone jl Returned ev d s =
     s\<lparr>tasks := tasks s @ [RQ_Done (Inl (AgentError m))],
       store_next := Suc (store_next s),
       delete_calls := delete_calls s @ [new_session s],
       log := log s @ Error_while_running_agent m #
         (case d of
            Returned \<Rightarrow> []
          | Raised x \<Rightarrow> [Failed_to_delete_session_after_run_error x])\<rparr>"
  using assms by (cases d) (simp_all add: request_alone_def Let_def ops nth_append)

text \<open>
  Claim C3. When the event stream raises before a final event, the request logs the
  error and goes to its except branch without touching anything else; when the
  \<^verbatim>\<open>delete_session\<close> it awaits there comes back, returned or raised, the call for the
  consumed session has been made, a failure of it is only logged, and the request ends
  by raising the agent's error, the slot, the lock, the rewarm handle and the set of
  tasks as they were. These two steps hold in any state, whatever ran in between. Run
  with nothing else, from a warm slot or from an empty one, the whole request ends with
  the slot empty, the delete call made, the agent's error raised, and no task but the
  request itself added: no rewarm is launched.
\<close>

theorem agent_error_path:
  "(i < length (tasks s) \<and> tasks s ! i = RQ_Running sess \<and> run_agent ev = Inl m \<longrightarrow>
      step jl s (Advance i r ev) =
        s\<lparr>tasks := (tasks s)[i := RQ_ErrDeleting sess m],
          log := log s @ [Error_while_running_agent m]\<rparr>) \<and>
   (i < length (tasks s) \<and> tasks s ! i = RQ_ErrDeleting sess m \<longrightarrow>
      step jl s (Advance i d ev) =
        s\<lparr>tasks := (tasks s)[i := RQ_Done (Inl (AgentError m))],
          delete_calls := delete_calls s @ [sess],
          log := log s @
            (case d of
               Returned \<Rightarrow> []
             | Raised x \<Rightarrow> [Failed_to_delete_session_after_run_error x])\<rparr>) \<and>
   (\<not> session_lock s \<and> shared_session s = Some sess \<and> run_agent ev = Inl m \<longrightarrow>
      request_alone jl c ev d s =
        s\<lparr>shared_session := None,
          tasks := tasks s @ [RQ_Done (Inl (AgentError m))],
          delete_calls := delete_calls s @ [sess],
          log := log s @ Error_while_running_agent m #
            (case d of
               Returned \<Rightarrow> []
             | Raised x \<Rightarrow> [Failed_to_delete_session_after_run_error x])\<rparr>) \<and>
   (\<not> session_lock s \<and> shared_session s = None \<and> run_agent ev = Inl m \<longrightarrow>
      request_alone jl Returned ev d s =
        s\<lparr>tasks := tasks s @ [RQ_Done (Inl (AgentError m))],
          store_next := Suc (store_next s),
          delete_calls := delete_calls s @ [new_session s],
          log := log s @ Error_while_running_agent m #
            (case d of
               Returned \<Rightarrow> []
             | Raised x \<Rightarrow> [Failed_to_delete_session_after_run_error x])\<rparr>)"
  using step_running_raise [of i s sess ev m jl r] step_err_deleting [of i s sess m jl d ev]
    request_alone_warm_raise [of s sess ev m jl c d]
    request_alone_fallback_raise [of s ev m jl d]
  by blast

theorem agent_error_path_witness:
  "step ((=) ''[]'')
     \<lparr>shared_session = None, session_lock = False, background_warm_task = None,
      tasks = [RW_Done, RQ_Running \<lparr>user_id = ''anonymous_user'', sess_id = 0\<rparr>],
      store_next = 1, delete_calls = [], log = []\<rparr>
     (Advance 1 Returned [Yield (Event (Some False) None), Raise ''quota'']) =
     \<lparr>shared_session = None, session_lock = False, background_warm_task = None,
      tasks = [RW_Done, RQ_ErrDeleting \<lparr>user_id = ''anonymous_user'', sess_id = 0\<rparr> ''quota''],
      store_next = 1, delete_calls = [], log = [Error_while_running_agent ''quota'']\<rparr> \<and>
   step ((=) ''[]'')
     \<lparr>shared_session = None, session_lock = False, background_warm_task = None,
      tasks = [RW_Done, RQ_ErrDeleting \<lparr>user_id = ''anonymous_user'', sess_id = 0\<rparr> ''quota''],
      store_next = 1, delete_calls = [], log = [Error_while_running_agent ''quota'']\<rparr>
     (Advance 1 (Raised ''gone'') []) =
     \<lparr>shared_session = None, session_lock = False, background_warm_task = None,
      tasks = [RW_Done, RQ_Done (Inl (AgentError ''quota''))],
      store_next = 1, delete_calls = [\<lparr>user_id = ''anonymous_user'', sess_id = 0\<rparr>],
      log = [Error_while_running_agent ''quota'',
             Failed_to_delete_session_after_run_error ''gone'']\<rparr> \<and>
   request_alone ((=) ''[]'') Returned [Yield (Event (Some False) None), Raise ''quota'']
     (Raised ''gone'')
     \<lparr>shared_session = Some \<lparr>user_id = ''anonymous_user'', sess_id = 0\<rparr>, session_lock = False,
      background_warm_task = None, tasks = [RW_Done], store_next = 1, delete_calls = [],
      log = []\<rparr> =
     \<lparr>shared_session = None, session_lock = False, background_warm_task = None,
      tasks = [RW_Done, RQ_Done (Inl (AgentError ''quota''))],
      store_next = 1, delete_calls = [\<lparr>user_id = ''anonymous_user'', sess_id = 0\<rparr>],
      log = [Error_while_running_agent ''quota'',
             Failed_to_delete_session_after_run_error ''gone'']\<rparr> \<and>
   request_alone ((=) ''[]'') Returned [Yield (Event (Some False) None), Raise ''quota'']
     Returned
     \<lparr>shared_session = None, session_lock = False, background_warm_task = None,
      tasks = [RW_Done], store_next = 1, delete_calls = [], log = []\<rparr> =
     \<lparr>shared_session = None, session_lock = False, background_warm_task = None,
      tasks = [RW_Done, RQ_Done (Inl (AgentError ''quota''))],
      store_next = 2, delete_calls = [\<lparr>user_id = ''anonymous_user'', sess_id = 1\<rparr>],
      log = [Error_while_running_agent ''quota'']\<rparr>"
  using
    agent_error_path [of 1
      "\<lparr>shared_session = None, session_lock = False, background_warm_task = None,
        tasks = [RW_Done, RQ_Running \<lparr>user_id = ''anonymous_user'', sess_id = 0\<rparr>],
        store_next = 1, delete_calls = [], log = []\<rparr>"
      "\<lparr>user_id = ''anonymous_user'', sess_id = 0\<rparr>"
      "[Yield (Event (Some False) None), Raise ''quota'']" "''quota''" "(=) ''[]''" Returned
      Returned Returned]
    agent_error_path [of 1
      "\<lparr>shared_session = None, session_lock = False, background_warm_task = None,
        tasks = [RW_Done, RQ_ErrDeleting \<lparr>user_id = ''anonymous_user'', sess_id = 0\<rparr> ''quota''],
        store_next = 1, delete_calls = [], log = [Error_while_running_agent ''quota'']\<rparr>"
      "\<lparr>user_id = ''anonymous_user'', sess_id = 0\<rparr>"
      "[]" "''quota''" "(=) ''[]''" Returned "Raised ''gone''" Returned]
    agent_error_path [of 0
      "\<lparr>shared_session = Some \<lparr>user_id = ''anonymous_user'', sess_id = 0\<rparr>, session_lock = False,
        background_warm_task = None, tasks = [RW_Done], store_next = 1, delete_calls = [],
        log = []\<rparr>"
      "\<lparr>user_id = ''anonymous_user'', sess_id = 0\<rparr>"
      "[Yield (Event (Some False) None), Raise ''quota'']" "''quota''" "(=) ''[]''" Returned
      "Raised ''gone''" Returned]
    agent_error_path [of 0
      "\<lparr>shared_session = None, session_lock = False, background_warm_task = None,
        tasks = [RW_Done], store_next = 1, delete_calls = [], log = []\<rparr>"
      "\<lparr>user_id = ''anonymous_user'', sess_id = 0\<rparr>"
      "[Yield (Event (Some False) None), Raise ''quota'']" "''quota''" "(=) ''[]''" Returned
      Returned Returned]
  by (simp add: request_alone_def ops)

subsection \<open>A request that finds the slot empty\<close>

lemma fallback_creates_under_lock:
  assumes "\<not> session_lock s" "shared_session s = None"
  shows "run jl s [Arrive, Advance (length (tasks s)) c ev, Advance (length (tasks s)) c ev] =
     s\<lparr>session_lock := True, tasks := tasks s @ [RQ_Creating]\<rparr>"
  using assms by (simp add: ops nth_append)

lemma fallback_create_fails:
  assumes "\<not> session_lock s" "shared_session s = None"
  shows "request_alone jl (Raised m) ev d s =
     s\<lparr>tasks := tasks s @ [RQ_Done (Inl (StoreError m))]\<rparr>"
  using assms by (simp add: request_alone_def Let_def ops nth_append)

lemma fallback_like_warm:
  assumes "\<not> session_lock s" "shared_session s = None"
  shows "run jl s [Arrive, Advance (length (tasks s)) c ev, Advance (length (tasks s)) c ev,
            Advance (length (tasks s)) Returned ev] =
         run jl (s\<lparr>shared_session := Some (new_session s), store_next := Suc (store_next s)\<rparr>)
           [Arrive, Advance (length (tasks s)) c ev, Advance (length (tasks s)) c ev]"
  using assms by (simp add: ops nth_append)

lemma warm_idle_append:
  "warm_idle s \<Longrightarrow> background_warm_task s' = background_warm_task s \<Longrightarrow>
   tasks s' = tasks s @ ts \<Longrightarrow> warm_idle s'"
  by (auto simp: warm_idle_def task_done_def nth_append split: option.splits)

lemma fallback_request_rewarms:
  assumes "\<not> session_lock s" "shared_session s = None" "warm_idle s"
    and "run_agent ev = Inr (Some t)" "t \<noteq> []"
  shows "run jl (request_alone jl Returned ev d s) [Advance (Suc (length (tasks s))) d' ev'] =
     s\<lparr>tasks := tasks s @ [RQ_Done (Inr (ok_response jl t)), CL_Done, RW_Create],
       store_next := Suc (store_next s),
       delete_calls := delete_calls s @ [new_session s],
       background_warm_task := Some (length (tasks s) + 2),
       log := log s @
         (case d' of
            Returned \<Rightarrow> []
          | Raised x \<Rightarrow> [Failed_to_delete_consumed_session x])\<rparr>"
proof -
  let ?s1 = "s\<lparr>tasks := tasks s @ [RQ_Done (Inr (ok_response jl t)), CL_Delete (new_session s)],
       store_next := Suc (store_next s)\<rparr>"
  have 1: "request_alone jl Returned ev d s = ?s1"
    using assms by (simp add: request_alone_def Let_def ops nth_append)
  let ?s2 = "try_delete (new_session s) d' Failed_to_delete_consumed_session ?s1"
  have "warm_idle ?s2"
    using assms(3)
    by (rule warm_idle_append
          [where ts = "[RQ_Done (Inr (ok_response jl t)), CL_Delete (new_session s)]"])
       (simp_all add: try_delete_simps)
  then show ?thesis
    unfolding 1
    by (cases d')
       (simp_all add: set_task_def spawn_def launch_warm_def try_delete_def logged_def
          nth_append list_update_append)
qed

lemma store_error_only_from_fallback:
  assumes "i < length (tasks s)"
    and "tasks (step jl s (Advance i r ev)) ! i = RQ_Done (Inl (StoreError m))"
    and "tasks s ! i \<noteq> RQ_Done (Inl (StoreError m))"
  shows "tasks s ! i = RQ_Creating \<and> r = Raised m"
  using assms
  by (cases "tasks s ! i")
     (auto simp: set_task_def release_def created_def logged_def try_delete_simps
        launch_warm_simps finish_result nth_append
        split: option.splits store_reply.splits sum.splits if_splits)

text \<open>
  The fallback path. A request that arrives when the slot is empty (and the lock free,
  nothing else running) takes the lock and awaits \<^verbatim>\<open>create_session\<close> while holding it. If the
  call raises, the request ends by raising that store error, with the lock released
  and nothing else changed. If it returns, the request stands exactly where a request
  stands that took the same session from the slot, so all that follows is the same as
  on the warm path: in particular, when the agent gives a final text and no rewarm
  task is pending, the request answers 200 and its cleanup makes the delete call for
  the created session and launches the rewarm task. And a request ends by raising a
  store error at no other place: any step that ends a request with a store error is
  the return of a raising \<^verbatim>\<open>create_session\<close> on this path.
\<close>

theorem fallback_path:
  "(\<not> session_lock s \<and> shared_session s = None \<longrightarrow>
      run jl s [Arrive, Advance (length (tasks s)) c ev, Advance (length (tasks s)) c ev] =
        s\<lparr>session_lock := True, tasks := tasks s @ [RQ_Creating]\<rparr> \<and>
      request_alone jl (Raised m) ev d s =
        s\<lparr>tasks := tasks s @ [RQ_Done (Inl (StoreError m))]\<rparr> \<and>
      run jl s [Arrive, Advance (length (tasks s)) c ev, Advance (length (tasks s)) c ev,
                Advance (length (tasks s)) Returned ev] =
        run jl (s\<lparr>shared_session := Some (new_session s), store_next := Suc (store_next s)\<rparr>)
          [Arrive, Advance (length (tasks s)) c ev, Advance (length (tasks s)) c ev]) \<and>
   (\<not> session_lock s \<and> shared_session s = None \<and> warm_idle s \<and>
    run_agent ev = Inr (Some t) \<and> t \<noteq> [] \<longrightarrow>
      run jl (request_alone jl Returned ev d s) [Advance (Suc (length (tasks s))) d' ev'] =
        s\<lparr>tasks := tasks s @ [RQ_Done (Inr (ok_response jl t)), CL_Done, RW_Create],
          store_next := Suc (store_next s),
          delete_calls := delete_calls s @ [new_session s],
          background_warm_task := Some (length (tasks s) + 2),
          log := log s @
            (case d' of
               Returned \<Rightarrow> []
             | Raised x \<Rightarrow> [Failed_to_delete_consumed_session x])\<rparr>) \<and>
   (i < length (tasks s) \<and>
    tasks (step jl s (Advance i r ev)) ! i = RQ_Done (Inl (StoreError m)) \<and>
    tasks s ! i \<noteq> RQ_Done (Inl (StoreError m)) \<longrightarrow>
      tasks s ! i = RQ_Creating \<and> r = Raised m)"
  using fallback_creates_under_lock [of s jl c ev] fallback_create_fails [of s jl m ev d]
    fallback_like_warm [of s jl c ev] fallback_request_rewarms [of s ev t jl d d' ev']
    store_error_only_from_fallback [of i s jl r ev m]
  by blast

theorem fallback_path_witness:
  "run ((=) ''[]'') initial [Arrive, Advance 0 Returned [], Advance 0 Returned []] =
     initial\<lparr>session_lock := True, tasks := [RQ_Creating]\<rparr> \<and>
   request_alone ((=) ''[]'') (Raised ''store down'')
     [Yield (Event (Some True) (Some (Content (Some [Part (Some ''[]'')]))))] Returned initial =
     initial\<lparr>tasks := [RQ_Done (Inl (StoreError ''store down''))]\<rparr> \<and>
   run ((=) ''[]'')
     (request_alone ((=) ''[]'') Returned
        [Yield (Event (Some True) (Some (Content (Some [Part (Some ''[]'')]))))] Returned initial)
     [Advance 1 (Raised ''gone'') []] =
     \<lparr>shared_session = None, session_lock = False, background_warm_task = Some 2,
      tasks = [RQ_Done (Inr \<lparr>status_code = 200, body = Some ''[]'',
                              media_type = Some ''application/json''\<rparr>), CL_Done, RW_Create],
      store_next = 1, delete_calls = [\<lparr>user_id = ''anonymous_user'', sess_id = 0\<rparr>],
      log = [Failed_to_delete_consumed_session ''gone'']\<rparr> \<and>
   tasks (step ((=) ''[]'') (initial\<lparr>session_lock := True, tasks := [RQ_Creating]\<rparr>)
     (Advance 0 (Raised ''store down'') [])) ! 0 = RQ_Done (Inl (StoreError ''store down''))"
  using
    fallback_path [of initial "(=) ''[]''" Returned
      "[Yield (Event (Some True) (Some (Content (Some [Part (Some ''[]'')]))))]"
      "''store down''" Returned "''[]''" "Raised ''gone''" "[]" 0 "Raised ''store down''"]
    fallback_path [of "initial\<lparr>session_lock := True, tasks := [RQ_Creating]\<rparr>" "(=) ''[]''"
      Returned "[]" "''store down''" Returned "''[]''" "Raised ''gone''" "[]" 0
      "Raised ''store down''"]
  by (simp add: request_alone_def initial_def ops final_text_of_def ok_response_def
      detect_media_type_def)

lemma fallback_no_final_text:
  assumes "\<not> session_lock s" "shared_session s = None" "run_agent ev = Inr ft" "\<not> truthy ft"
  shows "request_alone jl Returned ev d s =
     s\<lparr>tasks := tasks s @ [RQ_Done (Inr no_content)], store_next := Suc (store_next s)\<rparr>"
  using assms by (cases ft) (simp_all add: request_alone_def Let_def ops nth_append)

text \<open>
  Claim C7 at the input where the code departs from it. Startup has left the slot empty
  (its \<^verbatim>\<open>create_session\<close> had raised); a request arrives, creates its session under the
  lock, and the agent's final event carries no text. The request answers 204 and is
  over: the store has handed out a session, no \<^verbatim>\<open>delete_session\<close> call for it has been
  made, no cleanup task exists and no rewarm task has been launched, the slot is empty,
  and no coroutine is left that could still move.
\<close>

theorem fallback_without_cleanup:
  "request_alone ((=) ''[]'') Returned [Yield (Event (Some True) (Some (Content (Some []))))]
     Returned
     \<lparr>shared_session = None, session_lock = False, background_warm_task = None,
      tasks = [RW_Done], store_next = 0, delete_calls = [],
      log = [Failed_to_create_warm_session ''store down'']\<rparr> =
   \<lparr>shared_session = None, session_lock = False, background_warm_task = None,
    tasks = [RW_Done, RQ_Done (Inr \<lparr>status_code = 204, body = None, media_type = None\<rparr>)],
    store_next = 1, delete_calls = [],
    log = [Failed_to_create_warm_session ''store down'']\<rparr> \<and>
   (\<forall>i r ev.
      step ((=) ''[]'')
        \<lparr>shared_session = None, session_lock = False, background_warm_task = None,
         tasks = [RW_Done, RQ_Done (Inr \<lparr>status_code = 204, body = None, media_type = None\<rparr>)],
         store_next = 1, delete_calls = [],
         log = [Failed_to_create_warm_session ''store down'']\<rparr> (Advance i r ev) =
        \<lparr>shared_session = None, session_lock = False, background_warm_task = None,
         tasks = [RW_Done, RQ_Done (Inr \<lparr>status_code = 204, body = None, media_type = None\<rparr>)],
         store_next = 1, delete_calls = [],
         log = [Failed_to_create_warm_session ''store down'']\<rparr>)"
  by (auto simp: request_alone_def ops final_text_of_def no_content_def less_Suc_eq)

subsection \<open>A request whose agent gives no final text\<close>

lemma cleanup_step:
  assumes "i < length (tasks s)" "tasks s ! i = CL_Delete sess"
  shows "step jl s (Advance i d ev) =
     set_task i CL_Done
       (launch_warm (try_delete sess d Failed_to_delete_consumed_session s))"
  using assms by simp

text \<open>
  Claim C6 at the input where the code departs from it. The server has started with a
  warm session; a request arrives and the agent's final event carries no text. The
  request answers 204 and is over: no cleanup task exists, no \<^verbatim>\<open>delete_session\<close> call
  for the consumed session has been made, no rewarm task has been launched, the slot is
  empty, and no coroutine is left that could still move.
\<close>

theorem no_cleanup_after_no_content:
  "request_alone ((=) ''[]'') Returned [Yield (Event (Some True) (Some (Content (Some []))))]
     Returned
     \<lparr>shared_session = Some \<lparr>user_id = ''anonymous_user'', sess_id = 0\<rparr>, session_lock = False,
      background_warm_task = None, tasks = [RW_Done], store_next = 1, delete_calls = [],
      log = []\<rparr> =
   \<lparr>shared_session = None, session_lock = False, background_warm_task = None,
    tasks = [RW_Done, RQ_Done (Inr \<lparr>status_code = 204, body = None, media_type = None\<rparr>)],
    store_next = 1, delete_calls = [], log = []\<rparr> \<and>
   (\<forall>i r ev.
      step ((=) ''[]'')
        \<lparr>shared_session = None, session_lock = False, background_warm_task = None,
         tasks = [RW_Done, RQ_Done (Inr \<lparr>status_code = 204, body = None, media_type = None\<rparr>)],
         store_next = 1, delete_calls = [], log = []\<rparr> (Advance i r ev) =
        \<lparr>shared_session = None, session_lock = False, background_warm_task = None,
         tasks = [RW_Done, RQ_Done (Inr \<lparr>status_code = 204, body = None, media_type = None\<rparr>)],
         store_next = 1, delete_calls = [], log = []\<rparr>)"
  by (auto simp: request_alone_def ops final_text_of_def no_content_def less_Suc_eq)

subsection \<open>The slot discipline under every interleaving\<close>

lemma count_update:
  "i < length ts \<Longrightarrow>
   length (filter P (ts[i := p])) + (if P (ts ! i) then 1 else 0) =
   length (filter P ts) + (if P p then 1 else 0)"
proof (induction ts arbitrary: i)
  case Nil
  then show ?case by simp
next
  case (Cons t ts)
  show ?case
  proof (cases i)
    case 0
    then show ?thesis by simp
  next
    case (Suc j)
    with Cons.prems have "j < length ts" by simp
    from Cons.IH [OF this] Suc show ?thesis by simp
  qed
qed

lemma coherentI:
  assumes "\<And>n. holders n s \<le> (if n < store_next s then 1 else 0)"
    and "lockers s = (if session_lock s then 1 else 0)"
  shows "coherent s"
  using assms by (simp add: coherent_def)

lemma coherentD1: "coherent s \<Longrightarrow> holders n s \<le> (if n < store_next s then 1 else 0)"
  by (simp add: coherent_def)

lemma coherentD2: "coherent s \<Longrightarrow> lockers s = (if session_lock s then 1 else 0)"
  by (simp add: coherent_def)

lemma len_filter_pos: "i < length ts \<Longrightarrow> P (ts ! i) \<Longrightarrow> 0 < length (filter P ts)"
  by (metis filter_empty_conv length_greater_0_conv nth_mem)

lemma has_id_simps [simp]: "has_id n None = False" "has_id n (Some x) = (sess_id x = n)"
  by (simp_all add: has_id_def)

lemma coherent_frame:
  assumes coh: "coherent s" and i: "i < length (tasks s)"
    and tasks: "tasks s' = (tasks s)[i := p] @ extra"
    and "next": "store_next s \<le> store_next s'"
    and own: "\<And>n. (if has_id n (shared_session s') then 1 else 0) +
               (if has_id n (held p) then 1 else 0) +
               length (filter (\<lambda>q. has_id n (held q)) extra) \<le>
             (if has_id n (shared_session s) then 1 else 0) +
               (if has_id n (held (tasks s ! i)) then 1 else 0) +
               (if n = store_next s \<and> store_next s < store_next s' then 1 else (0::nat))"
    and lock: "(holds_lock (tasks s ! i) \<longrightarrow> session_lock s) \<Longrightarrow>
             (if session_lock s' then 1 else 0) + (if holds_lock (tasks s ! i) then 1 else 0) =
             (if session_lock s then 1 else 0) + (if holds_lock p then 1 else 0) +
               length (filter holds_lock extra)"
  shows "coherent s'"
proof (rule coherentI)
  fix n
  let ?P = "\<lambda>q. has_id n (held q)"
  have "holders n s' + (if ?P (tasks s ! i) then 1 else 0) + (if has_id n (shared_session s) then 1 else 0) =
      holders n s + (if has_id n (shared_session s') then 1 else 0) + (if ?P p then 1 else 0) +
        length (filter ?P extra)"
    using count_update [OF i, of ?P p] by (simp add: holders_def tasks)
  with own [of n] coherentD1 [OF coh, of n] "next"
  show "holders n s' \<le> (if n < store_next s' then 1 else 0)"
    by (auto split: if_splits)
next
  have "lockers s' + (if holds_lock (tasks s ! i) then 1 else 0) =
      lockers s + (if holds_lock p then 1 else 0) + length (filter holds_lock extra)"
    using count_update [OF i, of holds_lock p] by (simp add: lockers_def tasks)
  moreover have "holds_lock (tasks s ! i) \<longrightarrow> session_lock s"
    using len_filter_pos [OF i, of holds_lock] coherentD2 [OF coh]
    by (auto simp: lockers_def split: if_splits)
  ultimately show "lockers s' = (if session_lock s' then 1 else 0)"
    using lock coherentD2 [OF coh] by (auto split: if_splits)
qed

lemma coherent_resume:
  assumes "coherent s" "i < length (tasks s)"
  shows "coherent (resume jl s i r ev (tasks s ! i))"
proof (cases "tasks s ! i")
  case RQ_Acquire
  show ?thesis
  proof (cases "session_lock s")
    case True
    with assms RQ_Acquire show ?thesis by simp
  next
    case False
    show ?thesis
      by (rule coherent_frame [OF assms, where p = "RQ_Locked" and extra = "[]"])
         (simp_all add: RQ_Acquire False set_task_def spawn_def created_def release_def logged_def
            new_session_def try_delete_simps launch_warm_simps list_update_append assms(2))
  qed
next
  case RQ_Locked
  show ?thesis
  proof (cases "shared_session s")
    case None
    show ?thesis
      by (rule coherent_frame [OF assms, where p = "RQ_Creating" and extra = "[]"])
         (simp_all add: RQ_Locked None set_task_def spawn_def created_def release_def logged_def
            new_session_def try_delete_simps launch_warm_simps list_update_append assms(2))
  next
    case (Some x)
    show ?thesis
      by (rule coherent_frame [OF assms, where p = "RQ_Running x" and extra = "[]"])
         (simp_all add: RQ_Locked Some set_task_def spawn_def created_def release_def logged_def
            new_session_def try_delete_simps launch_warm_simps list_update_append assms(2))
  qed
next
  case RQ_Creating
  show ?thesis
  proof (cases r)
    case Returned
    show ?thesis
      by (rule coherent_frame [OF assms, where p = "RQ_Running (new_session s)" and extra = "[]"])
         (simp_all add: RQ_Creating Returned set_task_def spawn_def created_def release_def logged_def
            new_session_def try_delete_simps launch_warm_simps list_update_append assms(2))
  next
    case (Raised m)
    show ?thesis
      by (rule coherent_frame [OF assms, where p = "RQ_Done (Inl (StoreError m))" and extra = "[]"])
         (simp_all add: RQ_Creating Raised set_task_def spawn_def created_def release_def logged_def
            new_session_def try_delete_simps launch_warm_simps list_update_append assms(2))
  qed
next
  case (RQ_Running x)
  show ?thesis
  proof (cases "run_agent ev")
    case (Inl m)
    show ?thesis
      by (rule coherent_frame [OF assms, where p = "RQ_ErrDeleting x m" and extra = "[]"])
         (simp_all add: RQ_Running Inl set_task_def spawn_def created_def release_def logged_def
            new_session_def try_delete_simps launch_warm_simps list_update_append assms(2))
  next
    case (Inr ft)
    show ?thesis
    proof (cases "truthy ft")
      case False
      then have fin: "finish jl i x ft s = set_task i (RQ_Done (Inr no_content)) s"
        by (cases ft) (simp_all add: finish_def)
      show ?thesis
        by (rule coherent_frame [OF assms, where p = "RQ_Done (Inr no_content)" and extra = "[]"])
           (simp_all add: RQ_Running Inr fin set_task_def spawn_def created_def release_def logged_def
            new_session_def try_delete_simps launch_warm_simps list_update_append assms(2))
    next
      case True
      then obtain t where "ft = Some t" "t \<noteq> []"
        by (cases ft) simp_all
      then have fin: "finish jl i x ft s =
          spawn (CL_Delete x) (set_task i (RQ_Done (Inr (ok_response jl t))) s)"
        by (simp add: finish_def)
      show ?thesis
        by (rule coherent_frame [OF assms, where p = "RQ_Done (Inr (ok_response jl t))" and extra = "[CL_Delete x]"])
           (simp_all add: RQ_Running Inr fin set_task_def spawn_def created_def release_def logged_def
            new_session_def try_delete_simps launch_warm_simps list_update_append assms(2))
    qed
  qed
next
  case (RQ_ErrDeleting x m)
  show ?thesis
    by (rule coherent_frame [OF assms, where p = "RQ_Done (Inl (AgentError m))" and extra = "[]"])
       (simp_all add: RQ_ErrDeleting set_task_def spawn_def created_def release_def logged_def
            new_session_def try_delete_simps launch_warm_simps list_update_append assms(2))
next
  case (RQ_Done res)
  with assms show ?thesis by simp
next
  case (CL_Delete x)
  show ?thesis
    by (rule coherent_frame [OF assms, where p = "CL_Done" and extra = "if warm_idle (try_delete x r Failed_to_delete_consumed_session s) then [RW_Create] else []"])
       (simp_all add: CL_Delete set_task_def spawn_def created_def release_def logged_def
            new_session_def try_delete_simps launch_warm_simps list_update_append assms(2))
next
  case CL_Done
  with assms show ?thesis by simp
next
  case RW_Create
  show ?thesis
  proof (cases r)
    case Returned
    show ?thesis
      by (rule coherent_frame [OF assms, where p = "RW_Acquire (new_session s)" and extra = "[]"])
         (simp_all add: RW_Create Returned set_task_def spawn_def created_def release_def logged_def
            new_session_def try_delete_simps launch_warm_simps list_update_append assms(2))
  next
    case (Raised m)
    show ?thesis
      by (rule coherent_frame [OF assms, where p = "RW_Done" and extra = "[]"])
         (simp_all add: RW_Create Raised set_task_def spawn_def created_def release_def logged_def
            new_session_def try_delete_simps launch_warm_simps list_update_append assms(2))
  qed
next
  case (RW_Acquire x)
  show ?thesis
  proof (cases "session_lock s")
    case True
    with assms RW_Acquire show ?thesis by simp
  next
    case False
    show ?thesis
      by (rule coherent_frame [OF assms, where p = "RW_Locked x" and extra = "[]"])
         (simp_all add: RW_Acquire False set_task_def spawn_def created_def release_def logged_def
            new_session_def try_delete_simps launch_warm_simps list_update_append assms(2))
  qed
next
  case (RW_Locked x)
  show ?thesis
  proof (cases "shared_session s")
    case None
    show ?thesis
      by (rule coherent_frame [OF assms, where p = "RW_Done" and extra = "[]"])
         (simp_all add: RW_Locked None set_task_def spawn_def created_def release_def logged_def
            new_session_def try_delete_simps launch_warm_simps list_update_append assms(2))
  next
    case (Some y)
    show ?thesis
      by (rule coherent_frame [OF assms, where p = "RW_Deleting x" and extra = "[]"])
         (simp_all add: RW_Locked Some set_task_def spawn_def created_def release_def logged_def
            new_session_def try_delete_simps launch_warm_simps list_update_append assms(2))
  qed
next
  case (RW_Deleting x)
  show ?thesis
    by (rule coherent_frame [OF assms, where p = "RW_Done" and extra = "[]"])
       (simp_all add: RW_Deleting set_task_def spawn_def created_def release_def logged_def
            new_session_def try_delete_simps launch_warm_simps list_update_append assms(2))
next
  case RW_Done
  with assms show ?thesis by simp
next
  case (CL_Raised x)
  with assms show ?thesis by simp
next
  case (RW_Raised x)
  with assms show ?thesis by simp
qed

lemma coherent_interrupt:
  assumes "coherent s" "i < length (tasks s)"
  shows "coherent (interrupt s i m (tasks s ! i))"
proof (cases "tasks s ! i")
  case RQ_Acquire
  show ?thesis
    by (rule coherent_frame [OF assms, where p = "RQ_Done (Inl (Interrupted m))" and extra = "[]"])
       (simp_all add: RQ_Acquire set_task_def release_def)
next
  case RQ_Creating
  show ?thesis
    by (rule coherent_frame [OF assms, where p = "RQ_Done (Inl (Interrupted m))" and extra = "[]"])
       (simp_all add: RQ_Creating set_task_def release_def)
next
  case (RQ_Running x)
  show ?thesis
    by (rule coherent_frame [OF assms, where p = "RQ_Done (Inl (Interrupted m))" and extra = "[]"])
       (simp_all add: RQ_Running set_task_def release_def)
next
  case (RQ_ErrDeleting x e)
  show ?thesis
    by (rule coherent_frame [OF assms, where p = "RQ_Done (Inl (Interrupted m))" and extra = "[]"])
       (simp_all add: RQ_ErrDeleting set_task_def release_def)
next
  case (CL_Delete x)
  show ?thesis
    by (rule coherent_frame [OF assms, where p = "CL_Raised m" and extra = "[]"])
       (simp_all add: CL_Delete set_task_def release_def)
next
  case RW_Create
  show ?thesis
    by (rule coherent_frame [OF assms, where p = "RW_Raised m" and extra = "[]"])
       (simp_all add: RW_Create set_task_def release_def)
next
  case (RW_Acquire x)
  show ?thesis
    by (rule coherent_frame [OF assms, where p = "RW_Raised m" and extra = "[]"])
       (simp_all add: RW_Acquire set_task_def release_def)
next
  case (RW_Deleting x)
  show ?thesis
    by (rule coherent_frame [OF assms, where p = "RW_Raised m" and extra = "[]"])
       (simp_all add: RW_Deleting set_task_def release_def)
qed (use assms in simp_all)

lemma coherent_step: "coherent s \<Longrightarrow> coherent (step jl s a)"
proof (cases a)
  case Arrive
  assume "coherent s"
  then show ?thesis
    by (simp add: Arrive coherent_def holders_def lockers_def spawn_def)
next
  case (Advance i r ev)
  assume "coherent s"
  then show ?thesis
    by (simp add: Advance coherent_resume)
next
  case (Throw i m)
  assume "coherent s"
  then show ?thesis
    by (simp add: Throw coherent_interrupt)
qed

lemma coherent_run: "coherent s \<Longrightarrow> coherent (run jl s acts)"
  by (induction acts arbitrary: s) (simp_all add: coherent_step)

lemma quiescent_coherent:
  assumes "quiescent s"
  shows "coherent s"
proof -
  from assms have "filter (\<lambda>p. has_id n (held p)) (tasks s) = []" for n
    by (auto simp: quiescent_def list_all_iff filter_empty_conv)
  moreover from assms have "filter holds_lock (tasks s) = []"
    by (auto simp: quiescent_def list_all_iff filter_empty_conv)
  ultimately show ?thesis
    using assms
    by (auto simp: coherent_def holders_def lockers_def quiescent_def split: option.splits)
qed

lemma two_in_filter:
  assumes "i < j" "j < length ts" "P (ts ! i)" "P (ts ! j)"
  shows "2 \<le> length (filter P ts)"
proof -
  have "ts = take j ts @ drop j ts" by simp
  then have "length (filter P ts) =
      length (filter P (take j ts)) + length (filter P (drop j ts))"
    by (metis filter_append length_append)
  moreover have "0 < length (filter P (take j ts))"
    using assms by (intro len_filter_pos [of i]) simp_all
  moreover have "0 < length (filter P (drop j ts))"
    using assms by (intro len_filter_pos [of 0]) simp_all
  ultimately show ?thesis by linarith
qed

lemma two_in_filter':
  assumes "i \<noteq> j" "i < length ts" "j < length ts" "P (ts ! i)" "P (ts ! j)"
  shows "2 \<le> length (filter P ts)"
  using assms two_in_filter [of i j ts P] two_in_filter [of j i ts P]
  by (cases "i < j") auto

lemma coherent_distinct:
  assumes "coherent s" "i \<noteq> j" "i < length (tasks s)" "j < length (tasks s)"
    and "held (tasks s ! i) = Some x" "held (tasks s ! j) = Some y"
  shows "sess_id x \<noteq> sess_id y"
proof
  assume eq: "sess_id x = sess_id y"
  have "2 \<le> length (filter (\<lambda>p. has_id (sess_id x) (held p)) (tasks s))"
    using assms eq by (intro two_in_filter' [of i j]) simp_all
  with coherentD1 [OF assms(1), of "sess_id x"] show False
    by (simp add: holders_def split: if_splits)
qed

lemma coherent_slot_not_held:
  assumes "coherent s" "i < length (tasks s)"
    and "shared_session s = Some x" "held (tasks s ! i) = Some y"
  shows "sess_id x \<noteq> sess_id y"
proof
  assume eq: "sess_id x = sess_id y"
  have "0 < length (filter (\<lambda>p. has_id (sess_id x) (held p)) (tasks s))"
    using assms eq by (intro len_filter_pos [of i]) simp_all
  with coherentD1 [OF assms(1), of "sess_id x"] assms(3) show False
    by (simp add: holders_def split: if_splits)
qed

lemma coherent_mutex:
  assumes "coherent s" "i < length (tasks s)" "j < length (tasks s)"
    and "holds_lock (tasks s ! i)" "holds_lock (tasks s ! j)"
  shows "i = j"
proof (rule ccontr)
  assume "i \<noteq> j"
  then have "2 \<le> length (filter holds_lock (tasks s))"
    using assms by (intro two_in_filter' [of i j]) simp_all
  with coherentD2 [OF assms(1)] show False
    by (simp add: lockers_def split: if_splits)
qed

lemma coherent_locked:
  assumes "coherent s"
  shows "session_lock s \<longleftrightarrow> (\<exists>i<length (tasks s). holds_lock (tasks s ! i))"
proof
  assume "session_lock s"
  with coherentD2 [OF assms] have "filter holds_lock (tasks s) \<noteq> []"
    by (auto simp: lockers_def)
  then obtain p where "p \<in> set (tasks s)" "holds_lock p"
    by (auto simp: filter_empty_conv)
  then show "\<exists>i<length (tasks s). holds_lock (tasks s ! i)"
    by (auto simp: in_set_conv_nth)
next
  assume "\<exists>i<length (tasks s). holds_lock (tasks s ! i)"
  then obtain i where "i < length (tasks s)" "holds_lock (tasks s ! i)" by blast
  then have "0 < length (filter holds_lock (tasks s))"
    by (rule len_filter_pos)
  with coherentD2 [OF assms] show "session_lock s"
    by (simp add: lockers_def split: if_splits)
qed

lemma slot_written_under_lock:
  assumes "shared_session (step jl s a) \<noteq> shared_session s"
  shows "\<exists>i r ev. a = Advance i r ev \<and> i < length (tasks s) \<and> holds_lock (tasks s ! i)"
proof (cases a)
  case Arrive
  with assms show ?thesis by (simp add: spawn_def)
next
  case (Advance i r ev)
  with assms have i: "i < length (tasks s)"
    by (auto split: if_splits)
  with assms Advance have "holds_lock (tasks s ! i)"
    by (cases "tasks s ! i")
       (auto simp: set_task_def release_def created_def logged_def try_delete_simps
          launch_warm_simps finish_simps
          split: option.splits store_reply.splits sum.splits if_splits)
  with i Advance show ?thesis by blast
next
  case (Throw i m)
  have "shared_session (interrupt s i m p) = shared_session s" for p
    by (cases p) (simp_all add: set_task_def release_def)
  with assms Throw show ?thesis by (simp split: if_splits)
qed

lemma slot_read_under_lock:
  assumes "i < length (tasks s)" "\<not> holds_lock (tasks s ! i)"
  shows "step jl (s\<lparr>shared_session := v\<rparr>) (Advance i r ev) =
     (step jl s (Advance i r ev))\<lparr>shared_session := v\<rparr>"
  using assms
  by (cases "tasks s ! i"; cases r)
     (auto simp: ops Let_def split: option.splits sum.splits)

text \<open>
  Claim C1. Start from any quiescent state (for instance the one startup leaves) and let
  requests arrive and coroutines be resumed in any order, with any replies of the store
  and the agent. In every state reached: the slot, an optional session, holds at most
  one; no two coroutines (in particular no two requests in flight) hold sessions of the
  same identity, and none holds the session that is in the slot; at most one coroutine
  is inside the lock, and the lock is held exactly when one is; any step that changes
  the slot is taken by the coroutine inside the lock; and a step of a coroutine outside
  the lock does not depend on the slot.
\<close>

theorem slot_discipline:
  assumes "quiescent s0" and "s = run jl s0 acts"
  shows
    "(\<forall>i j x y. i < length (tasks s) \<and> j < length (tasks s) \<and> i \<noteq> j \<and>
        held (tasks s ! i) = Some x \<and> held (tasks s ! j) = Some y \<longrightarrow> sess_id x \<noteq> sess_id y) \<and>
     (\<forall>i x y. i < length (tasks s) \<and> shared_session s = Some x \<and>
        held (tasks s ! i) = Some y \<longrightarrow> sess_id x \<noteq> sess_id y) \<and>
     (\<forall>i j. i < length (tasks s) \<and> j < length (tasks s) \<and>
        holds_lock (tasks s ! i) \<and> holds_lock (tasks s ! j) \<longrightarrow> i = j) \<and>
     (session_lock s \<longleftrightarrow> (\<exists>i<length (tasks s). holds_lock (tasks s ! i))) \<and>
     (\<forall>a. shared_session (step jl s a) \<noteq> shared_session s \<longrightarrow>
        (\<exists>i r ev. a = Advance i r ev \<and> i < length (tasks s) \<and> holds_lock (tasks s ! i))) \<and>
     (\<forall>i r ev v. i < length (tasks s) \<and> \<not> holds_lock (tasks s ! i) \<longrightarrow>
        step jl (s\<lparr>shared_session := v\<rparr>) (Advance i r ev) =
        (step jl s (Advance i r ev))\<lparr>shared_session := v\<rparr>)"
proof -
  have coh: "coherent s"
    using assms by (simp add: quiescent_coherent coherent_run)
  show ?thesis
    using coherent_distinct [OF coh] coherent_slot_not_held [OF coh] coherent_mutex [OF coh]
      coherent_locked [OF coh] slot_written_under_lock [of jl s]
      slot_read_under_lock [of _ s jl]
    by (intro conjI allI impI) blast+
qed

theorem slot_discipline_witness:
  "quiescent
     \<lparr>shared_session = Some \<lparr>user_id = ''anonymous_user'', sess_id = 0\<rparr>, session_lock = False,
      background_warm_task = None, tasks = [RW_Done], store_next = 1, delete_calls = [],
      log = []\<rparr> \<and>
   run ((=) ''[]'')
     \<lparr>shared_session = Some \<lparr>user_id = ''anonymous_user'', sess_id = 0\<rparr>, session_lock = False,
      background_warm_task = None, tasks = [RW_Done], store_next = 1, delete_calls = [],
      log = []\<rparr>
     [Arrive, Arrive, Advance 1 Returned [], Advance 2 Returned [], Advance 1 Returned [],
      Advance 2 Returned [], Advance 2 Returned [], Advance 2 Returned []] =
     \<lparr>shared_session = None, session_lock = False, background_warm_task = None,
      tasks = [RW_Done, RQ_Running \<lparr>user_id = ''anonymous_user'', sess_id = 0\<rparr>,
               RQ_Running \<lparr>user_id = ''anonymous_user'', sess_id = 1\<rparr>],
      store_next = 2, delete_calls = [], log = []\<rparr> \<and>
   sess_id \<lparr>user_id = ''anonymous_user'', sess_id = 0\<rparr> \<noteq>
     sess_id \<lparr>user_id = ''anonymous_user'', sess_id = 1\<rparr>"
proof -
  let ?a = "\<lparr>shared_session = Some \<lparr>user_id = ''anonymous_user'', sess_id = 0\<rparr>,
      session_lock = False, background_warm_task = None, tasks = [RW_Done], store_next = 1,
      delete_calls = [], log = []\<rparr>"
  let ?acts = "[Arrive, Arrive, Advance 1 Returned [], Advance 2 Returned [], Advance 1 Returned [],
      Advance 2 Returned [], Advance 2 Returned [], Advance 2 Returned []]"
  let ?b = "\<lparr>shared_session = None, session_lock = False, background_warm_task = None,
      tasks = [RW_Done, RQ_Running \<lparr>user_id = ''anonymous_user'', sess_id = 0\<rparr>,
               RQ_Running \<lparr>user_id = ''anonymous_user'', sess_id = 1\<rparr>],
      store_next = 2, delete_calls = [], log = []\<rparr>"
  have q: "quiescent ?a"
    by (simp add: quiescent_def)
  have r: "?b = run ((=) ''[]'') ?a ?acts"
    by (simp add: ops numeral_2_eq_2)
  from slot_discipline [OF q r]
  have "\<forall>i j x y. i < length (tasks ?b) \<and> j < length (tasks ?b) \<and> i \<noteq> j \<and>
        held (tasks ?b ! i) = Some x \<and> held (tasks ?b ! j) = Some y \<longrightarrow> sess_id x \<noteq> sess_id y"
    by (rule conjunct1)
  from this [rule_format, of 1 2 "\<lparr>user_id = ''anonymous_user'', sess_id = 0\<rparr>"
      "\<lparr>user_id = ''anonymous_user'', sess_id = 1\<rparr>"]
  have "sess_id \<lparr>user_id = ''anonymous_user'', sess_id = 0\<rparr> \<noteq>
     sess_id \<lparr>user_id = ''anonymous_user'', sess_id = 1\<rparr>"
    by simp
  with q r show ?thesis by simp
qed

subsection \<open>Racing rewarm invocations leave at most one session\<close>

lemma warming_coherent: "warming N n0 s \<Longrightarrow> coherent s"
proof (rule coherentI)
  fix n
  assume w: "warming N n0 s"
  then have "holders n s + deleted n s = (if n0 \<le> n \<and> n < store_next s then 1 else 0)"
    by (simp add: warming_def)
  then show "holders n s \<le> (if n < store_next s then 1 else 0)"
    by (auto split: if_splits)
  from w show "lockers s = (if session_lock s then 1 else 0)"
    by (simp add: warming_def)
qed

lemma warming_start: "warming N n0 (rewarms N n0)"
  by (auto simp: warming_def rewarms_def lockers_def holders_def deleted_def holding_def
      list_all_iff list_ex_iff filter_empty_conv)

lemma list_ex_update:
  assumes "i < length ts" "list_ex P (ts[i := p])"
  shows "P p \<or> list_ex P ts"
proof -
  from assms(2) obtain j where j: "j < length ts" "P (ts[i := p] ! j)"
    by (auto simp: list_ex_iff in_set_conv_nth)
  show ?thesis
  proof (cases "j = i")
    case True
    with j assms(1) show ?thesis by simp
  next
    case False
    with j have "P (ts ! j)" by simp
    with j(1) show ?thesis by (auto simp: list_ex_iff)
  qed
qed

lemma warming_frame:
  assumes w: "warming N n0 s" and i: "i < length (tasks s)"
    and tasks: "tasks s' = (tasks s)[i := p]" and rw: "is_rewarm p"
    and "next": "store_next s' = (if c then Suc (store_next s) else store_next s)"
    and own: "\<And>n. (if has_id n (shared_session s') then 1 else 0) +
               (if has_id n (held p) then 1 else 0) + deleted n s' =
             (if has_id n (shared_session s) then 1 else 0) +
               (if has_id n (held (tasks s ! i)) then 1 else 0) + deleted n s +
               (if c \<and> n = store_next s then 1 else (0::nat))"
    and lock: "(holds_lock (tasks s ! i) \<longrightarrow> session_lock s) \<Longrightarrow>
             (if session_lock s' then 1 else 0) + (if holds_lock (tasks s ! i) then 1 else 0) =
             (if session_lock s then 1 else 0) + (if holds_lock p then (1::nat) else 0)"
    and mono: "shared_session s \<noteq> None \<Longrightarrow> shared_session s' \<noteq> None"
    and del: "(is_deleting (tasks s ! i) \<longrightarrow> shared_session s \<noteq> None) \<Longrightarrow>
             delete_calls s' \<noteq> delete_calls s \<or> is_deleting p \<Longrightarrow> shared_session s' \<noteq> None"
    and made: "(if c then 1 else 0) + (if p = RW_Create then 1 else 0) \<le>
             (if tasks s ! i = RW_Create then (1::nat) else 0)"
    and total: "(if shared_session s' = None then 0 else 1) +
               (if held p \<noteq> None then 1 else 0) + length (delete_calls s') =
             (if shared_session s = None then 0 else 1) +
               (if held (tasks s ! i) \<noteq> None then 1 else 0) + length (delete_calls s) +
               (if c then 1 else (0::nat))"
  shows "warming N n0 s'"
proof -
  have coh: "coherent s" using w by (rule warming_coherent)
  have 1: "list_all is_rewarm (tasks s')"
    using w rw by (auto simp: warming_def tasks list_all_iff dest!: subsetD [OF set_update_subset_insert])
  have 2: "length (tasks s') = N"
    using w by (simp add: warming_def tasks)
  have "lockers s' + (if holds_lock (tasks s ! i) then 1 else 0) =
      lockers s + (if holds_lock p then 1 else 0)"
    using count_update [OF i, of holds_lock p] by (simp add: lockers_def tasks)
  moreover have hl: "holds_lock (tasks s ! i) \<longrightarrow> session_lock s"
    using len_filter_pos [OF i, of holds_lock] coherentD2 [OF coh]
    by (auto simp: lockers_def split: if_splits)
  ultimately have 3: "lockers s' = (if session_lock s' then 1 else 0)"
    using lock coherentD2 [OF coh] by (auto split: if_splits)
  have 4: "holders n s' + deleted n s' = (if n0 \<le> n \<and> n < store_next s' then 1 else 0)" for n
  proof -
    let ?P = "\<lambda>q. has_id n (held q)"
    have "holders n s' + (if ?P (tasks s ! i) then 1 else 0) +
          (if has_id n (shared_session s) then 1 else 0) =
        holders n s + (if has_id n (shared_session s') then 1 else 0) + (if ?P p then 1 else 0)"
      using count_update [OF i, of ?P p] by (simp add: holders_def tasks)
    moreover from w have "holders n s + deleted n s =
        (if n0 \<le> n \<and> n < store_next s then 1 else 0)"
      by (simp add: warming_def)
    moreover from w have "n0 \<le> store_next s"
      by (simp add: warming_def)
    ultimately show ?thesis
      using own [of n] "next" by (auto split: if_splits)
  qed
  have dl: "is_deleting (tasks s ! i) \<longrightarrow> shared_session s \<noteq> None"
    using w i by (auto simp: warming_def list_ex_iff)
  have 5: "shared_session s' \<noteq> None"
    if "delete_calls s' \<noteq> [] \<or> list_ex is_deleting (tasks s')"
  proof (cases "delete_calls s' \<noteq> delete_calls s \<or> is_deleting p")
    case True
    with del dl show ?thesis by blast
  next
    case False
    with that list_ex_update [OF i, of is_deleting p]
    have "delete_calls s \<noteq> [] \<or> list_ex is_deleting (tasks s)"
      by (auto simp: tasks)
    with w have "shared_session s \<noteq> None"
      by (simp add: warming_def)
    then show ?thesis by (rule mono)
  qed
  have 6: "n0 \<le> store_next s'"
    using w "next" by (simp add: warming_def)
  have "length (filter (\<lambda>p. p = RW_Create) (tasks s')) + (if tasks s ! i = RW_Create then 1 else 0) =
      length (filter (\<lambda>p. p = RW_Create) (tasks s)) + (if p = RW_Create then 1 else 0)"
    using count_update [OF i, of "\<lambda>p. p = RW_Create" p] by (simp add: tasks)
  moreover from w have "store_next s + length (filter (\<lambda>p. p = RW_Create) (tasks s)) \<le> N + n0"
    by (simp add: warming_def)
  ultimately have 7: "store_next s' + length (filter (\<lambda>p. p = RW_Create) (tasks s')) \<le> N + n0"
    using made "next" 6 by (auto split: if_splits)
  have "holding s' + (if held (tasks s ! i) \<noteq> None then 1 else 0) +
        (if shared_session s = None then 0 else 1) =
      holding s + (if shared_session s' = None then 0 else 1) + (if held p \<noteq> None then 1 else 0)"
    using count_update [OF i, of "\<lambda>p. held p \<noteq> None" p] by (simp add: holding_def tasks)
  moreover from w have "holding s + length (delete_calls s) + n0 = store_next s"
    by (simp add: warming_def)
  ultimately have 8: "holding s' + length (delete_calls s') + n0 = store_next s'"
    using total "next" by (auto split: if_splits)
  from 1 2 3 4 5 6 7 8 show ?thesis
    unfolding warming_def by blast
qed

lemma warming_rewarm_pc:
  assumes "warming N n0 s" "i < length (tasks s)"
  shows "is_rewarm (tasks s ! i)"
  using assms by (auto simp: warming_def list_all_iff)

lemma warming_resume:
  assumes "warming N n0 s" "i < length (tasks s)"
  shows "warming N n0 (resume jl s i r ev (tasks s ! i))"
proof (cases "tasks s ! i")
  case RW_Create
  show ?thesis
  proof (cases r)
    case Returned
    show ?thesis
      by (rule warming_frame [OF assms, where p = "RW_Acquire (new_session s)" and c = True])
         (simp_all add: RW_Create Returned deleted_def set_task_def created_def release_def logged_def
            new_session_def try_delete_simps)
  next
    case (Raised m)
    show ?thesis
      by (rule warming_frame [OF assms, where p = "RW_Done" and c = False])
         (simp_all add: RW_Create Raised deleted_def set_task_def created_def release_def logged_def
            new_session_def try_delete_simps)
  qed
next
  case (RW_Acquire x)
  show ?thesis
  proof (cases "session_lock s")
    case True
    with assms RW_Acquire show ?thesis by simp
  next
    case False
    show ?thesis
      by (rule warming_frame [OF assms, where p = "RW_Locked x" and c = False])
         (simp_all add: RW_Acquire False deleted_def set_task_def created_def release_def logged_def
            new_session_def try_delete_simps)
  qed
next
  case (RW_Locked x)
  show ?thesis
  proof (cases "shared_session s")
    case None
    show ?thesis
      by (rule warming_frame [OF assms, where p = "RW_Done" and c = False])
         (simp_all add: RW_Locked None deleted_def set_task_def created_def release_def logged_def
            new_session_def try_delete_simps)
  next
    case (Some y)
    show ?thesis
      by (rule warming_frame [OF assms, where p = "RW_Deleting x" and c = False])
         (simp_all add: RW_Locked Some deleted_def set_task_def created_def release_def logged_def
            new_session_def try_delete_simps)
  qed
next
  case (RW_Deleting x)
  show ?thesis
    by (rule warming_frame [OF assms, where p = "RW_Done" and c = False])
       (simp_all add: RW_Deleting deleted_def set_task_def created_def release_def logged_def
          new_session_def try_delete_simps)
next
  case RW_Done
  with assms show ?thesis by simp
qed (use warming_rewarm_pc [OF assms] in simp_all)

lemma warming_step:
  assumes "warming N n0 s"
  shows "warming N n0 (step jl s (Advance i r ev))"
  using assms by (simp add: warming_resume)

lemma warming_run: "warming N n0 s \<Longrightarrow> warming N n0 (run jl s (resumes sched))"
proof (induction sched arbitrary: s)
  case Nil
  then show ?case by (simp add: resumes_def)
next
  case (Cons a sched)
  obtain i r where a: "a = (i, r)" by (cases a)
  have "warming N n0 (step jl s (Advance i r []))"
    using Cons.prems by (rule warming_step)
  from Cons.IH [OF this] show ?case
    by (simp add: resumes_def a)
qed

lemma warming_end:
  assumes w: "warming N n0 s" and fin: "list_all (\<lambda>p. p = RW_Done) (tasks s)"
  shows "(store_next s = n0 \<longrightarrow> shared_session s = None \<and> delete_calls s = []) \<and>
    (n0 < store_next s \<longrightarrow>
      (\<exists>x. shared_session s = Some x \<and> n0 \<le> sess_id x \<and> sess_id x < store_next s \<and>
        (\<forall>n. n0 \<le> n \<and> n < store_next s \<and> n \<noteq> sess_id x \<longrightarrow>
           n \<in> sess_id ` set (delete_calls s)) \<and>
        Suc (length (delete_calls s)) + n0 = store_next s))"
proof -
  from fin have none: "filter (\<lambda>p. held p \<noteq> None) (tasks s) = []"
    and nobody: "filter (\<lambda>p. has_id n (held p)) (tasks s) = []" for n
    by (auto simp: list_all_iff filter_empty_conv)
  from w have total: "holding s + length (delete_calls s) + n0 = store_next s"
    and deln: "delete_calls s \<noteq> [] \<longrightarrow> shared_session s \<noteq> None"
    by (simp_all add: warming_def)
  from w have each: "holders n s + deleted n s =
      (if n0 \<le> n \<and> n < store_next s then 1 else 0)" for n
    by (simp add: warming_def)
  have hold: "holding s = (if shared_session s = None then 0 else 1)"
    unfolding holding_def none by simp
  have "shared_session s = None \<and> delete_calls s = []" if "store_next s = n0"
    using that total hold by (auto split: if_splits)
  moreover have "\<exists>x. shared_session s = Some x \<and> n0 \<le> sess_id x \<and> sess_id x < store_next s \<and>
        (\<forall>n. n0 \<le> n \<and> n < store_next s \<and> n \<noteq> sess_id x \<longrightarrow>
           n \<in> sess_id ` set (delete_calls s)) \<and>
        Suc (length (delete_calls s)) + n0 = store_next s"
    if more: "n0 < store_next s"
  proof -
    have "shared_session s \<noteq> None"
    proof
      assume "shared_session s = None"
      with total hold more have "delete_calls s \<noteq> []" by auto
      with deln \<open>shared_session s = None\<close> show False by simp
    qed
    then obtain x where x: "shared_session s = Some x" by blast
    from each [of "sess_id x"] x have range: "n0 \<le> sess_id x \<and> sess_id x < store_next s"
      by (auto simp: holders_def split: if_splits)
    have "n \<in> sess_id ` set (delete_calls s)"
      if "n0 \<le> n \<and> n < store_next s \<and> n \<noteq> sess_id x" for n
    proof -
      from each [of n] that x have "deleted n s = 1"
        by (auto simp: holders_def nobody)
      then have "filter (\<lambda>y. sess_id y = n) (delete_calls s) \<noteq> []"
        by (auto simp: deleted_def)
      then show ?thesis
        by (auto simp: filter_empty_conv)
    qed
    moreover from total hold x have "Suc (length (delete_calls s)) + n0 = store_next s"
      by simp
    ultimately show ?thesis using x range by blast
  qed
  ultimately show ?thesis by blast
qed

lemma sum_update:
  "i < length ts \<Longrightarrow>
   sum_list (map f (ts[i := p])) + f (ts ! i) = sum_list (map f ts) + (f p :: nat)"
proof (induction ts arbitrary: i)
  case Nil
  then show ?case by simp
next
  case (Cons t ts)
  show ?case
  proof (cases i)
    case 0
    then show ?thesis by simp
  next
    case (Suc j)
    with Cons.prems have "j < length ts" by simp
    from Cons.IH [OF this] Suc show ?thesis by simp
  qed
qed

lemma remaining_set_task:
  "i < length (tasks s) \<Longrightarrow>
   remaining (set_task i p s) + steps_left (tasks s ! i) = remaining s + steps_left p"
  using sum_update [of i "tasks s" steps_left p] by (simp add: remaining_def set_task_def)

lemma remaining_resume:
  assumes "i < length (tasks s)" "is_rewarm (tasks s ! i)"
  shows "remaining (resume jl s i r ev (tasks s ! i)) \<le> remaining s"
proof -
  have *: "remaining (set_task i p s') \<le> remaining s"
    if "tasks s' = tasks s" "steps_left p \<le> steps_left (tasks s ! i)" for p s'
    using remaining_set_task [of i s' p] that assms(1) by (simp add: remaining_def)
  show ?thesis
    using assms(2)
    by (cases "tasks s ! i"; cases r; cases "shared_session s")
       (auto intro!: * simp: release_def created_def logged_def try_delete_simps)
qed

lemma remaining_moves:
  assumes "i < length (tasks s)"
    and "tasks s ! i = RW_Create \<or> (\<exists>x. tasks s ! i = RW_Locked x) \<or>
      (\<exists>x. tasks s ! i = RW_Deleting x) \<or> (\<exists>x. tasks s ! i = RW_Acquire x) \<and> \<not> session_lock s"
  shows "remaining (resume jl s i r ev (tasks s ! i)) < remaining s"
proof -
  have *: "remaining (set_task i p s') < remaining s"
    if "tasks s' = tasks s" "steps_left p < steps_left (tasks s ! i)" for p s'
    using remaining_set_task [of i s' p] that assms(1) by (simp add: remaining_def)
  show ?thesis
    using assms(2)
    by (cases "tasks s ! i"; cases r; cases "shared_session s")
       (auto intro!: * simp: release_def created_def logged_def try_delete_simps)
qed

lemma warming_progress:
  assumes w: "warming N n0 s" and busy: "\<not> list_all (\<lambda>p. p = RW_Done) (tasks s)"
  shows "\<exists>i<N. \<forall>r. remaining (step jl s (Advance i r [])) < remaining s"
proof -
  have len: "length (tasks s) = N"
    using w by (simp add: warming_def)
  have "\<exists>i<length (tasks s). tasks s ! i = RW_Create \<or> (\<exists>x. tasks s ! i = RW_Locked x) \<or>
      (\<exists>x. tasks s ! i = RW_Deleting x) \<or> (\<exists>x. tasks s ! i = RW_Acquire x) \<and> \<not> session_lock s"
  proof (cases "session_lock s")
    case True
    with coherent_locked [OF warming_coherent [OF w]]
    obtain i where i: "i < length (tasks s)" "holds_lock (tasks s ! i)" by blast
    with warming_rewarm_pc [OF w i(1)]
    have "(\<exists>x. tasks s ! i = RW_Locked x) \<or> (\<exists>x. tasks s ! i = RW_Deleting x)"
      by (cases "tasks s ! i") simp_all
    with i(1) show ?thesis by blast
  next
    case False
    from busy obtain i where i: "i < length (tasks s)" "tasks s ! i \<noteq> RW_Done"
      by (auto simp: list_all_iff in_set_conv_nth)
    with warming_rewarm_pc [OF w i(1)] False
    have "tasks s ! i = RW_Create \<or> (\<exists>x. tasks s ! i = RW_Locked x) \<or>
      (\<exists>x. tasks s ! i = RW_Deleting x) \<or> (\<exists>x. tasks s ! i = RW_Acquire x) \<and> \<not> session_lock s"
      by (cases "tasks s ! i") simp_all
    with i(1) show ?thesis by blast
  qed
  then obtain i where i: "i < length (tasks s)"
    and "tasks s ! i = RW_Create \<or> (\<exists>x. tasks s ! i = RW_Locked x) \<or>
      (\<exists>x. tasks s ! i = RW_Deleting x) \<or> (\<exists>x. tasks s ! i = RW_Acquire x) \<and> \<not> session_lock s"
    by blast
  then have "remaining (step jl s (Advance i r [])) < remaining s" for r
    using remaining_moves [of i s jl r "[]"] by simp
  with i len show ?thesis by blast
qed

lemma remaining_run:
  "warming N n0 s \<Longrightarrow> remaining (run jl s (resumes sched)) \<le> remaining s"
proof (induction sched arbitrary: s)
  case Nil
  then show ?case by (simp add: resumes_def)
next
  case (Cons a sched)
  obtain i r where a: "a = (i, r)" by (cases a)
  have w: "warming N n0 (step jl s (Advance i r []))"
    using Cons.prems by (rule warming_step)
  have "remaining (step jl s (Advance i r [])) \<le> remaining s"
    using remaining_resume [of i s jl r "[]"] warming_rewarm_pc [OF Cons.prems, of i]
    by simp
  with Cons.IH [OF w] show ?case
    by (simp add: resumes_def a)
qed

lemma remaining_start: "remaining (rewarms N n0) = 4 * N"
  by (simp add: remaining_def rewarms_def sum_list_replicate)

text \<open>
  Claim C2, amended. For every \<open>N\<close>, every order in which \<open>N\<close> concurrent rewarm
  invocations are resumed from an empty slot and every reply of the store: the store has
  handed out at most \<open>N\<close> sessions. Once all invocations have finished: if no
  \<^verbatim>\<open>create_session\<close> returned, the slot is empty and no delete call was made; if at
  least one returned, exactly one of the created sessions is in the slot and every other
  created session has had its \<^verbatim>\<open>delete_session\<close> call, one call each (as many calls as
  sessions created, less one, so at most \<open>N - 1\<close>). Until all have finished, some
  invocation can be resumed and every such move uses up one of at most \<open>4 * N\<close> steps,
  so the invocations do finish.
\<close>

theorem rewarm_race:
  assumes "s = run jl (rewarms N n0) (resumes sched)"
  shows "n0 \<le> store_next s \<and> store_next s \<le> n0 + N \<and>
    (list_all (\<lambda>p. p = RW_Done) (tasks s) \<longrightarrow>
      (store_next s = n0 \<longrightarrow> shared_session s = None \<and> delete_calls s = []) \<and>
      (n0 < store_next s \<longrightarrow>
        (\<exists>x. shared_session s = Some x \<and> n0 \<le> sess_id x \<and> sess_id x < store_next s \<and>
          (\<forall>n. n0 \<le> n \<and> n < store_next s \<and> n \<noteq> sess_id x \<longrightarrow>
             n \<in> sess_id ` set (delete_calls s)) \<and>
          Suc (length (delete_calls s)) + n0 = store_next s))) \<and>
    (\<not> list_all (\<lambda>p. p = RW_Done) (tasks s) \<longrightarrow>
      (\<exists>i<N. \<forall>r. remaining (step jl s (Advance i r [])) < remaining s)) \<and>
    remaining s \<le> 4 * N"
proof -
  have w: "warming N n0 s"
    unfolding assms using warming_start by (rule warming_run)
  then have "n0 \<le> store_next s" "store_next s \<le> n0 + N"
    by (simp_all add: warming_def)
  moreover have "remaining s \<le> remaining (rewarms N n0)"
    unfolding assms by (rule remaining_run [OF warming_start])
  then have "remaining s \<le> 4 * N"
    by (simp add: remaining_start)
  ultimately show ?thesis
    using warming_end [OF w] warming_progress [OF w, of jl] by blast
qed

text \<open>
  Claim C2, as stated, fails where \<^verbatim>\<open>create_session\<close> raises: one invocation, from an
  empty slot, has finished and the slot is still empty.
\<close>

theorem rewarm_without_session:
  "run ((=) ''[]'') (rewarms 1 0) (resumes [(0, Raised ''store down'')]) =
     \<lparr>shared_session = None, session_lock = False, background_warm_task = None,
      tasks = [RW_Done], store_next = 0, delete_calls = [],
      log = [Failed_to_create_warm_session ''store down'']\<rparr>"
  by (simp add: rewarms_def resumes_def ops)

theorem rewarm_race_witness:
  "run ((=) ''[]'') (rewarms 3 0)
     (resumes [(0, Returned), (1, Returned), (2, Returned), (1, Returned), (0, Returned),
        (1, Returned), (0, Returned), (2, Returned), (0, Returned), (0, Raised ''gone''),
        (2, Returned), (2, Returned), (2, Returned)]) =
     \<lparr>shared_session = Some \<lparr>user_id = ''anonymous_user'', sess_id = 1\<rparr>, session_lock = False,
      background_warm_task = None, tasks = [RW_Done, RW_Done, RW_Done], store_next = 3,
      delete_calls = [\<lparr>user_id = ''anonymous_user'', sess_id = 0\<rparr>,
                      \<lparr>user_id = ''anonymous_user'', sess_id = 2\<rparr>],
      log = [Failed_to_delete_extra_session ''gone'']\<rparr> \<and>
   Suc (length [\<lparr>user_id = ''anonymous_user'', sess_id = 0\<rparr>,
                \<lparr>user_id = ''anonymous_user'', sess_id = 2\<rparr>]) + 0 = (3::nat)"
proof -
  let ?a = "[(0, Returned), (1, Returned), (2, Returned), (1, Returned), (0, Returned),
        (1, Returned), (0, Returned), (2, Returned), (0, Returned), (0, Raised ''gone''),
        (2, Returned), (2, Returned), (2, Returned)]"
  let ?b = "\<lparr>shared_session = Some \<lparr>user_id = ''anonymous_user'', sess_id = 1\<rparr>, session_lock = False,
      background_warm_task = None, tasks = [RW_Done, RW_Done, RW_Done], store_next = 3,
      delete_calls = [\<lparr>user_id = ''anonymous_user'', sess_id = 0\<rparr>,
                      \<lparr>user_id = ''anonymous_user'', sess_id = 2\<rparr>],
      log = [Failed_to_delete_extra_session ''gone'']\<rparr>"
  have r: "?b = run ((=) ''[]'') (rewarms 3 0) (resumes ?a)"
    by (simp add: rewarms_def resumes_def ops numeral_2_eq_2 numeral_3_eq_3)
  from rewarm_race [OF r] r show ?thesis
    by simp
qed

subsection \<open>Exceptions in the rewarm routine\<close>

lemma rewarm_stays_rewarm:
  assumes "i < length (tasks s)" "is_rewarm (tasks s ! i)"
  shows "is_rewarm (tasks (step jl s (Advance i r ev)) ! i)"
  using assms
  by (cases "tasks s ! i"; cases r; cases "shared_session s")
     (simp_all add: set_task_def created_def logged_def release_def try_delete_simps)

lemma lifespan_with_resumes:
  "isl (lifespan_with jl key (resumes sched)) = (\<not> truthy key)"
proof (cases "truthy key")
  case False
  then show ?thesis by (simp add: lifespan_with_def)
next
  case True
  let ?t = "run jl (rewarms 1 0) (resumes sched)"
  have start: "spawn RW_Create initial = rewarms 1 0"
    by (simp add: spawn_def initial_def rewarms_def)
  have "warming 1 0 ?t"
    using warming_start by (rule warming_run)
  then have "length (tasks ?t) = 1" "list_all is_rewarm (tasks ?t)"
    by (simp_all add: warming_def)
  then obtain p where "tasks ?t = [p]" "is_rewarm p"
    by (cases "tasks ?t") auto
  then have "lifespan_with jl key (resumes sched) = Inr ?t"
    using True by (cases p) (simp_all add: lifespan_with_def start)
  with True show ?thesis by simp
qed

lemma lifespan_with_replies:
  "lifespan_with jl key [Advance 0 c [], Advance 0 c [], Advance 0 d [], Advance 0 d []] =
   lifespan jl key c d"
proof (cases "truthy key")
  case False
  then show ?thesis by (simp add: lifespan_with_def lifespan_def)
next
  case True
  have "tasks (await_create_and_set_session jl c d initial) = [RW_Done]"
    using await_rewarm_finishes [of initial jl c d] by (simp add: initial_def)
  moreover have "run jl (spawn RW_Create initial)
      [Advance 0 c [], Advance 0 c [], Advance 0 d [], Advance 0 d []] =
      await_create_and_set_session jl c d initial"
    by (simp add: await_create_and_set_session_def initial_def)
  ultimately show ?thesis
    using True by (simp add: lifespan_with_def lifespan_def Let_def)
qed

text \<open>
  Claim C9, as stated, fails where an exception that is not of class \<^verbatim>\<open>Exception\<close>
  (here \<^verbatim>\<open>asyncio.CancelledError\<close>) is raised at the routine's \<^verbatim>\<open>create_session\<close>
  await: the routine ends by raising it, nothing is logged, and startup, with the
  credential present, is aborted by it.
\<close>

theorem rewarm_interrupted:
  "step ((=) ''[]'')
     \<lparr>shared_session = None, session_lock = False, background_warm_task = None,
      tasks = [RW_Create], store_next = 0, delete_calls = [], log = []\<rparr>
     (Throw 0 ''CancelledError'') =
     \<lparr>shared_session = None, session_lock = False, background_warm_task = None,
      tasks = [RW_Raised ''CancelledError''], store_next = 0, delete_calls = [], log = []\<rparr> \<and>
   lifespan_with ((=) ''[]'') (Some ''key'') [Throw 0 ''CancelledError''] =
     Inl (Interrupted ''CancelledError'')"
  by (simp add: lifespan_with_def spawn_def initial_def set_task_def)

text \<open>
  Claim C9, amended. The rewarm routine catches and logs every exception of class
  \<^verbatim>\<open>Exception\<close> raised inside it: a \<^verbatim>\<open>create_session\<close> that raises one ends the routine
  normally with the failure logged and nothing else changed, a \<^verbatim>\<open>delete_session\<close> of a
  surplus session that raises one ends it normally with the failure logged and the lock
  released, and whatever the store replies the routine stays a running or normally
  finished routine; run on its own with the lock free it always finishes. An exception
  that is not of class \<^verbatim>\<open>Exception\<close>, raised at one of its awaits, is not caught: it
  ends the routine by raising, unlogged (with the lock released, and the delete call
  made, where it was awaiting that call). Consequently startup fails exactly when the
  credential is absent or empty, whatever the store replies and however the routine is
  resumed; with a credential and a \<^verbatim>\<open>create_session\<close> that raises an \<^verbatim>\<open>Exception\<close> it
  completes with an empty slot, and the first request then creates its session itself,
  under the lock; and with a credential, startup is aborted when such an uncaught
  exception passes through the routine.
\<close>

theorem rewarm_catches_exceptions:
  "(i < length (tasks s) \<and> tasks s ! i = RW_Create \<longrightarrow>
      step jl s (Advance i (Raised m) ev) =
        s\<lparr>tasks := (tasks s)[i := RW_Done],
          log := log s @ [Failed_to_create_warm_session m]\<rparr> \<and>
      step jl s (Throw i m) = s\<lparr>tasks := (tasks s)[i := RW_Raised m]\<rparr>) \<and>
   (i < length (tasks s) \<and> tasks s ! i = RW_Acquire sess \<longrightarrow>
      step jl s (Throw i m) = s\<lparr>tasks := (tasks s)[i := RW_Raised m]\<rparr>) \<and>
   (i < length (tasks s) \<and> tasks s ! i = RW_Deleting sess \<longrightarrow>
      step jl s (Advance i (Raised m) ev) =
        s\<lparr>tasks := (tasks s)[i := RW_Done], session_lock := False,
          delete_calls := delete_calls s @ [sess],
          log := log s @ [Failed_to_delete_extra_session m]\<rparr> \<and>
      step jl s (Throw i m) =
        s\<lparr>tasks := (tasks s)[i := RW_Raised m], session_lock := False,
          delete_calls := delete_calls s @ [sess]\<rparr>) \<and>
   (i < length (tasks s) \<and> is_rewarm (tasks s ! i) \<longrightarrow>
      is_rewarm (tasks (step jl s (Advance i r ev)) ! i)) \<and>
   (\<not> session_lock s \<longrightarrow>
      tasks (await_create_and_set_session jl c d s) = tasks s @ [RW_Done]) \<and>
   isl (lifespan jl key c d) = (\<not> truthy key) \<and>
   isl (lifespan_with jl key (resumes sched)) = (\<not> truthy key) \<and>
   lifespan_with jl key [Advance 0 c [], Advance 0 c [], Advance 0 d [], Advance 0 d []] =
     lifespan jl key c d \<and>
   (truthy key \<longrightarrow>
      lifespan jl key (Raised m) d =
        Inr (initial\<lparr>tasks := [RW_Done], log := [Failed_to_create_warm_session m]\<rparr>)) \<and>
   (truthy key \<longrightarrow> lifespan_with jl key [Throw 0 m] = Inl (Interrupted m)) \<and>
   run jl (initial\<lparr>tasks := [RW_Done], log := [Failed_to_create_warm_session m]\<rparr>)
     [Arrive, Advance 1 c ev, Advance 1 c ev] =
   initial\<lparr>tasks := [RW_Done, RQ_Creating], session_lock := True,
     log := [Failed_to_create_warm_session m]\<rparr>"
proof -
  have "truthy key \<longrightarrow> lifespan_with jl key [Throw 0 m] = Inl (Interrupted m)"
    by (simp add: lifespan_with_def spawn_def initial_def set_task_def)
  then show ?thesis
    using await_rewarm_finishes [of s jl c d] rewarm_stays_rewarm [of i s jl r ev]
      lifespan_with_resumes [of jl key sched] lifespan_with_replies [of jl key c d]
    by (simp add: lifespan_def await_rewarm_raised ops initial_def)
qed

theorem rewarm_catches_exceptions_witness:
  "step ((=) ''[]'') (initial\<lparr>tasks := [RW_Create]\<rparr>) (Advance 0 (Raised ''store down'') []) =
     initial\<lparr>tasks := [RW_Done], log := [Failed_to_create_warm_session ''store down'']\<rparr> \<and>
   step ((=) ''[]'') (initial\<lparr>tasks := [RW_Create]\<rparr>) (Throw 0 ''store down'') =
     initial\<lparr>tasks := [RW_Raised ''store down'']\<rparr> \<and>
   step ((=) ''[]'')
     \<lparr>shared_session = Some \<lparr>user_id = ''anonymous_user'', sess_id = 0\<rparr>, session_lock = True,
      background_warm_task = None, tasks = [RW_Deleting \<lparr>user_id = ''anonymous_user'', sess_id = 1\<rparr>],
      store_next = 2, delete_calls = [], log = []\<rparr>
     (Advance 0 (Raised ''store down'') []) =
     \<lparr>shared_session = Some \<lparr>user_id = ''anonymous_user'', sess_id = 0\<rparr>, session_lock = False,
      background_warm_task = None, tasks = [RW_Done], store_next = 2,
      delete_calls = [\<lparr>user_id = ''anonymous_user'', sess_id = 1\<rparr>],
      log = [Failed_to_delete_extra_session ''store down'']\<rparr> \<and>
   step ((=) ''[]'')
     \<lparr>shared_session = Some \<lparr>user_id = ''anonymous_user'', sess_id = 0\<rparr>, session_lock = True,
      background_warm_task = None, tasks = [RW_Deleting \<lparr>user_id = ''anonymous_user'', sess_id = 1\<rparr>],
      store_next = 2, delete_calls = [], log = []\<rparr>
     (Throw 0 ''store down'') =
     \<lparr>shared_session = Some \<lparr>user_id = ''anonymous_user'', sess_id = 0\<rparr>, session_lock = False,
      background_warm_task = None, tasks = [RW_Raised ''store down''], store_next = 2,
      delete_calls = [\<lparr>user_id = ''anonymous_user'', sess_id = 1\<rparr>], log = []\<rparr> \<and>
   step ((=) ''[]'')
     \<lparr>shared_session = None, session_lock = True, background_warm_task = None,
      tasks = [RW_Acquire \<lparr>user_id = ''anonymous_user'', sess_id = 0\<rparr>, RQ_Creating],
      store_next = 1, delete_calls = [], log = []\<rparr>
     (Throw 0 ''store down'') =
     \<lparr>shared_session = None, session_lock = True, background_warm_task = None,
      tasks = [RW_Raised ''store down'', RQ_Creating],
      store_next = 1, delete_calls = [], log = []\<rparr> \<and>
   tasks (await_create_and_set_session ((=) ''[]'') (Raised ''store down'') Returned initial) =
     [RW_Done] \<and>
   lifespan ((=) ''[]'') (Some ''key'') (Raised ''store down'') Returned =
     Inr (initial\<lparr>tasks := [RW_Done], log := [Failed_to_create_warm_session ''store down'']\<rparr>) \<and>
   lifespan_with ((=) ''[]'') (Some ''key'') [Throw 0 ''store down''] =
     Inl (Interrupted ''store down'') \<and>
   isl (lifespan ((=) ''[]'') None (Raised ''store down'') Returned)"
  using
    rewarm_catches_exceptions [of 0 "initial\<lparr>tasks := [RW_Create]\<rparr>" "(=) ''[]''"
      "''store down''" "[]" "\<lparr>user_id = ''anonymous_user'', sess_id = 1\<rparr>" Returned
      "Raised ''store down''" Returned "Some ''key''" "[]"]
    rewarm_catches_exceptions [of 0
      "\<lparr>shared_session = Some \<lparr>user_id = ''anonymous_user'', sess_id = 0\<rparr>, session_lock = True,
        background_warm_task = None, tasks = [RW_Deleting \<lparr>user_id = ''anonymous_user'', sess_id = 1\<rparr>],
        store_next = 2, delete_calls = [], log = []\<rparr>" "(=) ''[]''" "''store down''" "[]"
      "\<lparr>user_id = ''anonymous_user'', sess_id = 1\<rparr>" Returned
      "Raised ''store down''" Returned None "[]"]
    rewarm_catches_exceptions [of 0
      "\<lparr>shared_session = None, session_lock = True, background_warm_task = None,
        tasks = [RW_Acquire \<lparr>user_id = ''anonymous_user'', sess_id = 0\<rparr>, RQ_Creating],
        store_next = 1, delete_calls = [], log = []\<rparr>" "(=) ''[]''" "''store down''" "[]"
      "\<lparr>user_id = ''anonymous_user'', sess_id = 0\<rparr>" Returned
      "Raised ''store down''" Returned None "[]"]
  by (simp add: initial_def lifespan_def lifespan_with_def await_rewarm_raised ops)

end
